theory Spec2Isabelle
  imports
    Main
    "HOL-Library.Word"
    "HOL-Library.Sublist"
    "HOL-Library.Char_ord"
    "HOL-Library.List_Lexorder"
begin

unbundle bit_operations_syntax

section \<open>Strings\<close>

text \<open>
  Go strings are byte sequences; they are modelled as \<open>string\<close> (a list of 8-bit
  characters). The functions of package \<open>strings\<close> that the server calls are written
  out. The server only ever splits and joins on the one-byte separator \<open>/\<close>, so the
  separator is a character.
\<close>

text \<open>\<open>strings.Contains(s, substr)\<close>: \<open>substr\<close> occurs somewhere within \<open>s\<close>.\<close>

fun Contains :: "string \<Rightarrow> string \<Rightarrow> bool" where
  "Contains [] sub = (sub = [])"
| "Contains (c # cs) sub = (prefix sub (c # cs) \<or> Contains cs sub)"

text \<open>\<open>strings.Split(s, sep)\<close> for a one-byte separator: always at least one field.\<close>

fun Split :: "string \<Rightarrow> char \<Rightarrow> string list" where
  "Split [] sep = [[]]"
| "Split (c # cs) sep =
     (if c = sep then [] # Split cs sep
      else (case Split cs sep of
              [] \<Rightarrow> [[c]]
            | w # ws \<Rightarrow> (c # w) # ws))"

text \<open>\<open>strings.Join(elems, sep)\<close> for a one-byte separator.\<close>

fun Join :: "string list \<Rightarrow> char \<Rightarrow> string" where
  "Join [] sep = []"
| "Join [w] sep = w"
| "Join (w # v # ws) sep = w @ sep # Join (v # ws) sep"

text \<open>\<open>strings.HasSuffix\<close> and \<open>strings.TrimSuffix\<close>.\<close>

definition HasSuffix :: "string \<Rightarrow> string \<Rightarrow> bool" where
  "HasSuffix s suf = suffix suf s"

definition TrimSuffix :: "string \<Rightarrow> string \<Rightarrow> string" where
  "TrimSuffix s suf = (if HasSuffix s suf then take (length s - length suf) s else s)"

section \<open>The repository identifier: \<open>md5String\<close>\<close>

text \<open>
  \<open>md5String\<close> creates a fresh MD5 state, writes the string into it and prints the sum
  with \<open>%x\<close>. Package \<open>crypto/md5\<close> is modelled after RFC 1321: a digest is the four
  chaining words, the bytes of the unfinished block and the length written so far
  (a \<open>uint64\<close>).
\<close>

type_synonym byte = "8 word"
type_synonym uint32 = "32 word"
type_synonym md5state = "uint32 \<times> uint32 \<times> uint32 \<times> uint32"

record digest =
  s :: md5state
  x :: "byte list"
  len :: "64 word"

definition md5_New :: digest where
  "md5_New = \<lparr> s = (0x67452301, 0xefcdab89, 0x98badcfe, 0x10325476), x = [], len = 0 \<rparr>"

definition shifts :: "nat list" where
  "shifts = [7, 12, 17, 22, 7, 12, 17, 22, 7, 12, 17, 22, 7, 12, 17, 22,
             5, 9, 14, 20, 5, 9, 14, 20, 5, 9, 14, 20, 5, 9, 14, 20,
             4, 11, 16, 23, 4, 11, 16, 23, 4, 11, 16, 23, 4, 11, 16, 23,
             6, 10, 15, 21, 6, 10, 15, 21, 6, 10, 15, 21, 6, 10, 15, 21]"

definition table :: "uint32 list" where
  "table = [0xd76aa478, 0xe8c7b756, 0x242070db, 0xc1bdceee,
            0xf57c0faf, 0x4787c62a, 0xa8304613, 0xfd469501,
            0x698098d8, 0x8b44f7af, 0xffff5bb1, 0x895cd7be,
            0x6b901122, 0xfd987193, 0xa679438e, 0x49b40821,
            0xf61e2562, 0xc040b340, 0x265e5a51, 0xe9b6c7aa,
            0xd62f105d, 0x02441453, 0xd8a1e681, 0xe7d3fbc8,
            0x21e1cde6, 0xc33707d6, 0xf4d50d87, 0x455a14ed,
            0xa9e3e905, 0xfcefa3f8, 0x676f02d9, 0x8d2a4c8a,
            0xfffa3942, 0x8771f681, 0x6d9d6122, 0xfde5380c,
            0xa4beea44, 0x4bdecfa9, 0xf6bb4b60, 0xbebfbc70,
            0x289b7ec6, 0xeaa127fa, 0xd4ef3085, 0x04881d05,
            0xd9d4d039, 0xe6db99e5, 0x1fa27cf8, 0xc4ac5665,
            0xf4292244, 0x432aff97, 0xab9423a7, 0xfc93a039,
            0x655b59c3, 0x8f0ccc92, 0xffeff47d, 0x85845dd1,
            0x6fa87e4f, 0xfe2ce6e0, 0xa3014314, 0x4e0811a1,
            0xf7537e82, 0xbd3af235, 0x2ad7d2bb, 0xeb86d391]"

definition rotl32 :: "uint32 \<Rightarrow> nat \<Rightarrow> uint32" where
  "rotl32 w n = (push_bit n w) OR (drop_bit (32 - n) w)"

text \<open>Little-endian reading and writing of words.\<close>

definition le32 :: "byte list \<Rightarrow> uint32" where
  "le32 bs = foldr (\<lambda>b acc. push_bit 8 acc OR ucast b) bs 0"

fun words16 :: "byte list \<Rightarrow> uint32 list" where
  "words16 (a # b # c # d # rest) = le32 [a, b, c, d] # words16 rest"
| "words16 _ = []"

definition putUint32 :: "uint32 \<Rightarrow> byte list" where
  "putUint32 w = map (\<lambda>i. ucast (drop_bit (8 * i) w)) [0..<4]"

definition putUint64 :: "64 word \<Rightarrow> byte list" where
  "putUint64 w = map (\<lambda>i. ucast (drop_bit (8 * i) w)) [0..<8]"

text \<open>One of the 64 operations on a block, and the compression of one 64-byte block.\<close>

definition step :: "uint32 list \<Rightarrow> nat \<Rightarrow> md5state \<Rightarrow> md5state" where
  "step m i st = (case st of (a, b, c, d) \<Rightarrow>
     let f = (if i < 16 then (b AND c) OR (NOT b AND d)
              else if i < 32 then (d AND b) OR (NOT d AND c)
              else if i < 48 then b XOR c XOR d
              else c XOR (b OR NOT d));
         g = (if i < 16 then i
              else if i < 32 then (5 * i + 1) mod 16
              else if i < 48 then (3 * i + 5) mod 16
              else (7 * i) mod 16);
         f' = f + a + table ! i + m ! g
     in (d, b + rotl32 f' (shifts ! i), b, c))"

definition block :: "md5state \<Rightarrow> byte list \<Rightarrow> md5state" where
  "block st p = (case st of (a0, b0, c0, d0) \<Rightarrow>
     (case fold (step (words16 p)) [0..<64] st of (a, b, c, d) \<Rightarrow>
        (a0 + a, b0 + b, c0 + c, d0 + d)))"

function blocks :: "md5state \<Rightarrow> byte list \<Rightarrow> md5state \<times> byte list" where
  "blocks st p = (if length p < 64 then (st, p)
                  else blocks (block st (take 64 p)) (drop 64 p))"
  by pat_completeness auto
termination
  by (relation "measure (\<lambda>(st, p). length p)") auto

declare blocks.simps [simp del]

text \<open>\<open>Write\<close> consumes every complete block and keeps the rest; \<open>Sum\<close> pads a copy
  of the state with \<open>0x80\<close>, zeros and the bit length, and returns the 16 bytes of the
  four words.\<close>

definition md5_Write :: "digest \<Rightarrow> byte list \<Rightarrow> digest" where
  "md5_Write d p = (case blocks (s d) (x d @ p) of (st, rest) \<Rightarrow>
     \<lparr> s = st, x = rest, len = len d + of_nat (length p) \<rparr>)"

definition md5_Sum :: "digest \<Rightarrow> byte list" where
  "md5_Sum d0 =
     (let n = unat (len d0);
          pad = (if n mod 64 < 56 then 56 - n mod 64 else 64 + 56 - n mod 64);
          d1 = md5_Write d0 (0x80 # replicate (pad - 1) 0);
          d2 = md5_Write d1 (putUint64 (push_bit 3 (len d0)))
      in (case s d2 of (a, b, c, d) \<Rightarrow>
            putUint32 a @ putUint32 b @ putUint32 c @ putUint32 d))"

text \<open>\<open>fmt.Sprintf("%x", bytes)\<close>: two lower-case hexadecimal digits for each byte.\<close>

definition hexdigit :: "nat \<Rightarrow> char" where
  "hexdigit n = ''0123456789abcdef'' ! (n mod 16)"

definition sprintf_x :: "byte list \<Rightarrow> string" where
  "sprintf_x bs =
     concat (map (\<lambda>b. [hexdigit (unat b div 16), hexdigit (unat b mod 16)]) bs)"

definition md5String :: "string \<Rightarrow> string" where
  "md5String str = sprintf_x (md5_Sum (md5_Write md5_New (map of_char str)))"

text \<open>The identifier format of the specification: 32 lower-case hexadecimal characters.\<close>

definition lowerHex :: "char \<Rightarrow> bool" where
  "lowerHex c = (c \<in> set ''0123456789abcdef'')"

definition isIdentifier :: "string \<Rightarrow> bool" where
  "isIdentifier str = (length str = 32 \<and> list_all lowerHex str)"

section \<open>The path classifier of \<open>loadRepoFiles\<close>\<close>

text \<open>
  The visit function of \<open>loadRepoFiles\<close> first drops every path that contains the text
  \<open>.git\<close>, and then types the entry \<open>dir\<close> or \<open>file\<close> by \<open>f.IsDir()\<close>.
\<close>

definition typeFile :: string where "typeFile = ''file''"
definition typeDir :: string where "typeDir = ''dir''"

definition fileType :: "bool \<Rightarrow> string" where
  "fileType isDir = (if isDir then typeDir else typeFile)"

datatype entry_class = Skip | File | Directory

definition classify :: "string \<Rightarrow> bool \<Rightarrow> entry_class" where
  "classify path isDir =
     (if Contains path ''.git'' then Skip
      else if fileType isDir = typeDir then Directory else File)"

text \<open>The reading of the specification: \<open>.git\<close> is one of the segments of the path.\<close>

definition hasSegment :: "string \<Rightarrow> string \<Rightarrow> bool" where
  "hasSegment path seg = (seg \<in> set (Split path CHR ''/''))"

section \<open>Go maps as association lists\<close>

text \<open>
  \<open>m[k] = v\<close> on a Go map replaces the value of a key that is present and adds the key
  otherwise; \<open>v, ok := m[k]\<close> is \<open>map_of\<close>.
\<close>

fun put :: "'k \<Rightarrow> 'v \<Rightarrow> ('k \<times> 'v) list \<Rightarrow> ('k \<times> 'v) list" where
  "put k v [] = [(k, v)]"
| "put k v ((k', v') # kvs) = (if k = k' then (k, v) # kvs else (k', v') # put k v kvs)"

section \<open>The file system\<close>

text \<open>
  The server keeps no state of its own: everything lives in the working directory of the
  process. The directory is modelled as a tree. A regular file has permissions and
  contents; a directory has permissions, the size that \<open>stat\<close> reports for it, and named
  entries. Permissions are those of the server process: read, write and search
  (execute). There are no symbolic links. The working directory is the root of
  the tree, so \<open>..\<close> at the top stays at the top, as in a \<open>chroot\<close>.
\<close>

datatype errno = ENOENT | EACCES | ENOTDIR | EISDIR

datatype perm = Perm (may_read: bool) (may_write: bool) (may_search: bool)

datatype fsobj =
    FileObj perm string
  | DirObj perm int "(string \<times> fsobj) list"

record FileInfo =
  fi_Name :: string
  fi_Size :: int
  fi_IsDir :: bool
  fi_Mode :: perm

text \<open>\<open>os.IsNotExist\<close>: of the errors of the model, only \<open>ENOENT\<close>.\<close>

definition IsNotExist :: "errno \<Rightarrow> bool" where
  "IsNotExist e = (e = ENOENT)"

text \<open>The object at a list of entry names, with no regard to permissions.\<close>

fun lookup :: "fsobj \<Rightarrow> string list \<Rightarrow> fsobj option" where
  "lookup ob [] = Some ob"
| "lookup ob (n # ns) =
     (case ob of
        FileObj p d \<Rightarrow> None
      | DirObj p sz ents \<Rightarrow>
          (case map_of ents n of None \<Rightarrow> None | Some child \<Rightarrow> lookup child ns))"

text \<open>
  Path resolution as the kernel does it, one component at a time from the directory
  \<open>cur\<close>: every component is looked up in a directory that must be searchable; empty
  components and \<open>.\<close> stay, \<open>..\<close> goes up.
\<close>

fun namei :: "fsobj \<Rightarrow> string list \<Rightarrow> string list \<Rightarrow> errno + string list" where
  "namei fs cur [] = Inr cur"
| "namei fs cur (c # cs) =
     (case lookup fs cur of
        Some (DirObj p sz ents) \<Rightarrow>
          if \<not> may_search p then Inl EACCES
          else if c = [] \<or> c = ''.'' then namei fs cur cs
          else if c = ''..'' then namei fs (butlast cur) cs
          else (case map_of ents c of
                  None \<Rightarrow> Inl ENOENT
                | Some child \<Rightarrow> namei fs (cur @ [c]) cs)
      | _ \<Rightarrow> Inl ENOTDIR)"

definition resolve :: "fsobj \<Rightarrow> string \<Rightarrow> errno + string list" where
  "resolve fs name =
     (if name = [] then Inl ENOENT else namei fs [] (Split name CHR ''/''))"

text \<open>The unexported \<open>basename\<close> of package \<open>os\<close>, which names a \<open>FileInfo\<close>: trailing
  slashes are removed (never the first byte), then everything up to the last slash.\<close>

definition basename :: "string \<Rightarrow> string" where
  "basename name =
     (case name of
        [] \<Rightarrow> []
      | c # cs \<Rightarrow>
          (let t = c # rev (dropWhile (\<lambda>a. a = CHR ''/'') (rev cs))
           in rev (takeWhile (\<lambda>a. a \<noteq> CHR ''/'') (rev (butlast t))) @ [last t]))"

definition fileInfo :: "string \<Rightarrow> fsobj \<Rightarrow> FileInfo" where
  "fileInfo n ob =
     (case ob of
        FileObj p d \<Rightarrow> \<lparr> fi_Name = n, fi_Size = int (length d), fi_IsDir = False, fi_Mode = p \<rparr>
      | DirObj p sz ents \<Rightarrow> \<lparr> fi_Name = n, fi_Size = sz, fi_IsDir = True, fi_Mode = p \<rparr>)"

text \<open>\<open>os.Stat\<close> and \<open>os.Lstat\<close> (the same without symbolic links).\<close>

definition os_Stat :: "fsobj \<Rightarrow> string \<Rightarrow> errno + FileInfo" where
  "os_Stat fs name =
     (case resolve fs name of
        Inl e \<Rightarrow> Inl e
      | Inr cp \<Rightarrow>
          (case lookup fs cp of
             None \<Rightarrow> Inl ENOENT
           | Some ob \<Rightarrow> Inr (fileInfo (basename name) ob)))"

text \<open>\<open>os.Open\<close> opens for reading: the object must be readable. The open file is
  modelled by the object it refers to.\<close>

definition operm :: "fsobj \<Rightarrow> perm" where
  "operm ob = (case ob of FileObj p d \<Rightarrow> p | DirObj p sz ents \<Rightarrow> p)"

definition os_Open :: "fsobj \<Rightarrow> string \<Rightarrow> errno + fsobj" where
  "os_Open fs name =
     (case resolve fs name of
        Inl e \<Rightarrow> Inl e
      | Inr cp \<Rightarrow>
          (case lookup fs cp of
             None \<Rightarrow> Inl ENOENT
           | Some ob \<Rightarrow> if may_read (operm ob) then Inr ob else Inl EACCES))"

text \<open>Reading an open file to its end (\<open>io.Copy\<close> from it): a directory cannot be read.\<close>

definition readAll :: "fsobj \<Rightarrow> errno + string" where
  "readAll ob = (case ob of FileObj p d \<Rightarrow> Inr d | DirObj p sz ents \<Rightarrow> Inl EISDIR)"

text \<open>\<open>(*File).Readdir(-1)\<close>: the entries in directory order, each with its \<open>lstat\<close>,
  which needs search permission on the directory.\<close>

definition Readdir :: "fsobj \<Rightarrow> errno + FileInfo list" where
  "Readdir ob =
     (case ob of
        FileObj p d \<Rightarrow> Inl ENOTDIR
      | DirObj p sz ents \<Rightarrow>
          if ents \<noteq> [] \<and> \<not> may_search p then Inl EACCES
          else Inr (map (\<lambda>(n, child). fileInfo n child) ents))"

text \<open>Replacing, or adding, the object at a list of entry names.\<close>

fun update_at :: "fsobj \<Rightarrow> string list \<Rightarrow> fsobj \<Rightarrow> fsobj" where
  "update_at ob [] new = new"
| "update_at ob (n # ns) new =
     (case ob of
        FileObj p d \<Rightarrow> ob
      | DirObj p sz ents \<Rightarrow>
          (case map_of ents n of
             None \<Rightarrow> if ns = [] then DirObj p sz (put n new ents) else ob
           | Some child \<Rightarrow> DirObj p sz (put n (update_at child ns new) ents)))"

text \<open>
  \<open>ioutil.WriteFile(name, data, perm)\<close> opens with \<open>O_WRONLY|O_CREATE|O_TRUNC\<close> and
  writes: an existing file must be writable and keeps its mode; a missing one is created
  with \<open>perm\<close> in a writable directory.
\<close>

definition ioutil_WriteFile :: "fsobj \<Rightarrow> string \<Rightarrow> string \<Rightarrow> perm \<Rightarrow> errno option \<times> fsobj" where
  "ioutil_WriteFile fs name data pm =
     (if name = [] then (Some ENOENT, fs)
      else
        (let comps = Split name CHR ''/''; n = last comps in
         case namei fs [] (butlast comps) of
           Inl e \<Rightarrow> (Some e, fs)
         | Inr dir \<Rightarrow>
             (case lookup fs dir of
                Some (DirObj p sz ents) \<Rightarrow>
                  if \<not> may_search p then (Some EACCES, fs)
                  else if n = [] \<or> n = ''.'' \<or> n = ''..'' then (Some EISDIR, fs)
                  else
                    (case map_of ents n of
                       Some (FileObj q d) \<Rightarrow>
                         if may_write q
                         then (None, update_at fs (dir @ [n]) (FileObj q data))
                         else (Some EACCES, fs)
                     | Some (DirObj q sz' ents') \<Rightarrow> (Some EISDIR, fs)
                     | None \<Rightarrow>
                         if may_write p
                         then (None, update_at fs (dir @ [n]) (FileObj pm data))
                         else (Some EACCES, fs))
              | _ \<Rightarrow> (Some ENOTDIR, fs))))"

text \<open>Two objects are alike when path resolution cannot tell them apart: both are
  files, or both are directories with the same search permission and entry names.\<close>

fun alike :: "fsobj \<Rightarrow> fsobj \<Rightarrow> bool" where
  "alike (FileObj p d) (FileObj p' d') = True"
| "alike (DirObj p sz ents) (DirObj p' sz' ents') =
     (may_search p = may_search p' \<and> fst ` set ents = fst ` set ents')"
| "alike _ _ = False"

text \<open>An object in which every \<open>lstat\<close> of the walk succeeds: each directory that can
  be read can also be searched, all the way down.\<close>

fun lstatable :: "fsobj \<Rightarrow> bool" where
  "lstatable (FileObj p d) = True"
| "lstatable (DirObj p sz ents) =
     (\<not> may_read p \<or> (may_search p \<and> list_all (\<lambda>e. lstatable (snd e)) ents))"

text \<open>The names a directory can hold: not empty, not \<open>.\<close> or \<open>..\<close>, and without a slash.
  A tree is well formed when all the names in it are such, and a path is plain when
  all its segments are.\<close>

definition validName :: "string \<Rightarrow> bool" where
  "validName n = (n \<noteq> [] \<and> n \<noteq> ''.'' \<and> n \<noteq> ''..'' \<and> CHR ''/'' \<notin> set n)"

fun wellFormed :: "fsobj \<Rightarrow> bool" where
  "wellFormed (FileObj p d) = True"
| "wellFormed (DirObj p sz ents) =
     list_all (\<lambda>e. validName (fst e) \<and> wellFormed (snd e)) ents"

definition validPath :: "string \<Rightarrow> bool" where
  "validPath path = list_all validName (Split path CHR ''/'')"

definition isDirObj :: "fsobj \<Rightarrow> bool" where
  "isDirObj ob = (case ob of FileObj p d \<Rightarrow> False | DirObj p sz ents \<Rightarrow> True)"

section \<open>\<open>filepath.Walk\<close>\<close>

text \<open>
  \<open>filepath.Walk(root, fn)\<close> stats the root and, if that fails, calls \<open>fn(root, nil, err)\<close>
  once. Otherwise it calls \<open>fn\<close> on the root and then, names in lexical order, on everything
  below it. A directory whose names cannot be read is reported by one call that carries
  the error; an entry whose \<open>lstat\<close> fails is reported with a nil \<open>FileInfo\<close>. The visit
  function of the server returns nil in every case, so the walk is never cut short, and
  it is modelled by the list of the calls it makes. The root is passed on as it was
  given; the path of every other entry is \<open>filepath.Join(path, name)\<close>, which cleans the
  result.
\<close>

text \<open>
  \<open>filepath.Clean\<close> on Unix: empty segments and \<open>.\<close> are dropped, \<open>..\<close> removes the segment
  before it (and is dropped at the root of a rooted path, kept at the front of any
  other), and the empty result is \<open>.\<close>. The stack has the last segment first.
\<close>

fun cleanStack :: "bool \<Rightarrow> string list \<Rightarrow> string list \<Rightarrow> string list" where
  "cleanStack rooted [] st = rev st"
| "cleanStack rooted (c # cs) st =
     (if c = [] \<or> c = ''.'' then cleanStack rooted cs st
      else if c = ''..'' then
        (case st of
           [] \<Rightarrow> if rooted then cleanStack rooted cs [] else cleanStack rooted cs [''..'']
         | t # ts \<Rightarrow>
             if t = ''..'' then cleanStack rooted cs (''..'' # st)
             else cleanStack rooted cs ts)
      else cleanStack rooted cs (c # st))"

definition Clean :: "string \<Rightarrow> string" where
  "Clean path =
     (if path = [] then ''.''
      else
        (let rooted = (hd path = CHR ''/'');
             out = (if rooted then ''/'' else []) @
                   Join (cleanStack rooted (Split path CHR ''/'') []) CHR ''/''
         in if out = [] then ''.'' else out))"

text \<open>\<open>filepath.Join\<close> of two elements: empty elements are ignored, the rest is joined
  with a slash and cleaned.\<close>

definition filepath_Join :: "string \<Rightarrow> string \<Rightarrow> string" where
  "filepath_Join a b =
     (if a \<noteq> [] then Clean (a @ CHR ''/'' # b)
      else if b \<noteq> [] then Clean b
      else [])"

type_synonym walkcall = "string \<times> FileInfo option \<times> errno option"

function walk :: "string \<Rightarrow> string \<Rightarrow> fsobj \<Rightarrow> walkcall list" where
  "walk path n (FileObj p d) = [(path, Some (fileInfo n (FileObj p d)), None)]"
| "walk path n (DirObj p sz ents) =
     (if \<not> may_read p then [(path, Some (fileInfo n (DirObj p sz ents)), Some EACCES)]
      else (path, Some (fileInfo n (DirObj p sz ents)), None) #
           concat (map (\<lambda>(m, child).
                     if \<not> may_search p then [(filepath_Join path m, None, Some EACCES)]
                     else walk (filepath_Join path m) m child)
                   (sort_key fst ents)))"
  by pat_completeness auto
termination
proof (relation "measure (\<lambda>(path, n, ob). size ob)")
  show "wf (measure (\<lambda>(path, n, ob). size ob))" by simp
next
  fix path :: string and n :: string and p sz and ents :: "(string \<times> fsobj) list"
    and x :: "string \<times> fsobj" and m child
  assume "x \<in> set (sort_key fst ents)" and "(m, child) = x"
  then have "(m, child) \<in> set ents" by simp
  then have "size child < size (DirObj p sz ents)"
    by (induction ents) auto
  then show "((filepath_Join path m, m, child), (path, n, DirObj p sz ents))
      \<in> measure (\<lambda>(path, n, ob). size ob)"
    by simp
qed

declare walk.simps [simp del]

definition Walk :: "fsobj \<Rightarrow> string \<Rightarrow> walkcall list" where
  "Walk fs root =
     (case resolve fs root of
        Inl e \<Rightarrow> [(root, None, Some e)]
      | Inr cp \<Rightarrow>
          (case lookup fs cp of
             None \<Rightarrow> [(root, None, Some ENOENT)]
           | Some ob \<Rightarrow> walk root (basename root) ob))"

section \<open>The file tree: \<open>FileNode\<close>, \<open>setDeepNode\<close>, \<open>loadRepoFiles\<close>\<close>

text \<open>
  A \<open>FileNode\<close> holds its children in a map from names to nodes. Every node is created
  by one call of the visit function and stored in one place, so the pointer structure
  is a tree, and the updates in place are modelled by rebuilding the path to the
  changed node.
\<close>

datatype FileNode =
  FileNode (Type: string) (Name: string) (Size: int) (URL: string)
    (Children: "(string \<times> FileNode) list")

record Repository =
  ID :: string
  RepoName :: string
  RepoURL :: string
  Files :: "FileNode option"

datatype panic = NilPointerDereference | IndexOutOfRange

definition setChild :: "FileNode \<Rightarrow> string \<Rightarrow> FileNode \<Rightarrow> FileNode" where
  "setChild b k f = FileNode (Type b) (Name b) (Size b) (URL b) (put k f (Children b))"

text \<open>
  \<open>setDeepNode(b, keys, f)\<close>: while the first key names a child and more keys follow,
  descend; then, if exactly one key is left, store \<open>f\<close> under its own name in the node
  reached. \<open>keys[0]\<close> on an empty slice panics (\<open>None\<close>).
\<close>

fun setDeepNode :: "FileNode \<Rightarrow> string list \<Rightarrow> FileNode \<Rightarrow> FileNode option" where
  "setDeepNode b [] f = None"
| "setDeepNode b (k # ks) f =
     (case map_of (Children b) k of
        Some v \<Rightarrow>
          if ks \<noteq> [] then
            (case setDeepNode v ks f of
               None \<Rightarrow> None
             | Some v' \<Rightarrow> Some (setChild b k v'))
          else Some (setChild b (Name f) f)
      | None \<Rightarrow> if ks = [] then Some (setChild b (Name f) f) else Some b)"

text \<open>
  The visit function of \<open>loadRepoFiles\<close>; \<open>first\<close> is the variable it closes over.
  It never looks at \<open>err\<close>, and \<open>f.IsDir()\<close> on a nil \<open>FileInfo\<close> panics. Every call
  makes a node (\<open>makeNode\<close>); a node after the first gets its URL, if it is a file,
  before it is stored (\<open>withURL\<close>).
\<close>

definition makeNode :: "FileInfo \<Rightarrow> FileNode" where
  "makeNode fi = FileNode (fileType (fi_IsDir fi)) (fi_Name fi) (fi_Size fi) [] []"

definition withURL :: "string \<Rightarrow> string \<Rightarrow> FileNode \<Rightarrow> FileNode" where
  "withURL repoID path node =
     (if Type node = ''file''
      then FileNode (Type node) (Name node) (Size node)
             (''/repositories/'' @ repoID @ ''/files/'' @
                Join (tl (Split path CHR ''/'')) CHR ''/'')
             (Children node)
      else node)"

definition visitFunc ::
  "string \<Rightarrow> string \<Rightarrow> FileInfo option \<Rightarrow> errno option \<Rightarrow> FileNode option
    \<Rightarrow> panic + FileNode option" where
  "visitFunc repoID path f err first =
     (if Contains path ''.git'' then Inr first
      else
        (case f of
           None \<Rightarrow> Inl NilPointerDereference
         | Some fi \<Rightarrow>
             (case first of
                None \<Rightarrow> Inr (Some (makeNode fi))
              | Some root \<Rightarrow>
                  (let node = withURL repoID path (makeNode fi);
                       parentPathParts = tl (Split path CHR ''/'')
                   in if length parentPathParts \<le> 1
                      then Inr (Some (setChild root (Name node) node))
                      else
                        (case setDeepNode root (butlast parentPathParts) node of
                           None \<Rightarrow> Inl IndexOutOfRange
                         | Some root' \<Rightarrow> Inr (Some root'))))))"

fun visitAll :: "string \<Rightarrow> walkcall list \<Rightarrow> FileNode option \<Rightarrow> panic + FileNode option" where
  "visitAll repoID [] first = Inr first"
| "visitAll repoID ((path, f, err) # calls) first =
     (case visitFunc repoID path f err first of
        Inl p \<Rightarrow> Inl p
      | Inr first' \<Rightarrow> visitAll repoID calls first')"

definition loadRepoFiles :: "fsobj \<Rightarrow> Repository \<Rightarrow> panic + Repository" where
  "loadRepoFiles fs repo =
     (case visitAll (ID repo) (Walk fs (ID repo)) None of
        Inl p \<Rightarrow> Inl p
      | Inr first \<Rightarrow> Inr (repo\<lparr>Files := first\<rparr>))"




section \<open>The server\<close>

text \<open>
  A handler returns nil or an error, or panics; \<open>ServeHTTP\<close> recovers the panic. The
  type \<open>HTTPError\<close> of package \<open>httputil\<close> pairs a status with an error; all other
  errors are those of the operating system, of a child process and of the JSON decoder.
\<close>

datatype error =
    HTTPError (Status: nat) (Err: string)
  | SysError errno
  | ExecError string
  | DecodeError string

datatype ret = Nil | Error error | Panicked panic

definition StatusOK :: nat where "StatusOK = 200"
definition StatusBadRequest :: nat where "StatusBadRequest = 400"
definition StatusNotFound :: nat where "StatusNotFound = 404"
definition StatusInternalServerError :: nat where "StatusInternalServerError = 500"

definition errNotFound :: error where
  "errNotFound = HTTPError StatusNotFound ''not found''"

text \<open>What a handler writes: raw bytes, or a value rendered as JSON. The buffer records
  the status passed to \<open>WriteHeader\<close>, if any, and the writes in order.\<close>

datatype payload =
    Raw string
  | JSONRepository Repository
  | JSONRepositories "Repository list"
  | JSONError nat string

record ResponseBuffer =
  rb_status :: "nat option"
  rb_body :: "payload list"

definition emptyBuffer :: ResponseBuffer where
  "emptyBuffer = \<lparr> rb_status = None, rb_body = [] \<rparr>"

definition rawBody :: "ResponseBuffer \<Rightarrow> string" where
  "rawBody rb = concat (map (\<lambda>p. case p of Raw d \<Rightarrow> d | _ \<Rightarrow> []) (rb_body rb))"

text \<open>
  The world outside the process: the disk, and the log of the child processes started
  so far (arguments and working directory). What a child process does is not the
  server's: it is given by the environment, as the error of the run, its output and the
  disk it leaves. So are \<open>strings.TrimSpace\<close> and \<open>os.RemoveAll\<close>.
\<close>

record world =
  disk :: fsobj
  procs :: "(string list \<times> string) list"

record env =
  exec :: "string list \<Rightarrow> string \<Rightarrow> fsobj \<Rightarrow> string option \<times> string \<times> fsobj"
  TrimSpace :: "string \<Rightarrow> string"
  RemoveAll :: "string \<Rightarrow> fsobj \<Rightarrow> errno option \<times> fsobj"

record outcome =
  returned :: ret
  response :: ResponseBuffer
  final :: world

definition run :: "env \<Rightarrow> world \<Rightarrow> string list \<Rightarrow> string \<Rightarrow> (string option \<times> string) \<times> world" where
  "run E w argv dir =
     (case exec E argv dir (disk w) of
        (err, out, d) \<Rightarrow> ((err, out), \<lparr> disk = d, procs = procs w @ [(argv, dir)] \<rparr>))"

definition runCmd :: "env \<Rightarrow> world \<Rightarrow> string list \<Rightarrow> string option \<times> world" where
  "runCmd E w argv = (case run E w argv [] of ((err, out), w') \<Rightarrow> (err, w'))"

definition fileExists :: "fsobj \<Rightarrow> string \<Rightarrow> bool" where
  "fileExists fs filename =
     (case os_Stat fs (''./'' @ filename) of
        Inl err \<Rightarrow> if IsNotExist err then False else True
      | Inr fi \<Rightarrow> True)"

definition gitRemote :: "env \<Rightarrow> world \<Rightarrow> string \<Rightarrow> (error + string) \<times> world" where
  "gitRemote E w repoPath =
     (case run E w [''git'', ''config'', ''--get'', ''remote.origin.url''] repoPath of
        ((Some err, u), w') \<Rightarrow> (Inl (ExecError err), w')
      | ((None, u), w') \<Rightarrow> (Inr (TrimSpace E u), w'))"

definition repoName :: "env \<Rightarrow> world \<Rightarrow> string \<Rightarrow> (error + string) \<times> world" where
  "repoName E w repoPath =
     (case gitRemote E w repoPath of
        (Inl err, w') \<Rightarrow> (Inl err, w')
      | (Inr remote, w') \<Rightarrow>
          (Inr (TrimSuffix (last (Split remote CHR ''/'')) ''.git''), w'))"

definition renderJSON :: "ResponseBuffer \<Rightarrow> nat \<Rightarrow> payload \<Rightarrow> ResponseBuffer" where
  "renderJSON rb status v = \<lparr> rb_status = Some status, rb_body = rb_body rb @ [v] \<rparr>"

text \<open>\<open>createRepo\<close>; \<open>body\<close> is the result of decoding the request into a \<open>Repository\<close>.\<close>

definition createRepo :: "env \<Rightarrow> world \<Rightarrow> string + Repository \<Rightarrow> outcome" where
  "createRepo E w body =
     (case body of
        Inl err \<Rightarrow>
          \<lparr> returned = Error (HTTPError StatusBadRequest err),
            response = emptyBuffer, final = w \<rparr>
      | Inr repo0 \<Rightarrow>
          if RepoURL repo0 = [] then
            \<lparr> returned = Error (HTTPError StatusBadRequest ''url is required''),
              response = emptyBuffer, final = w \<rparr>
          else
            (let repo = repo0\<lparr>ID := md5String (RepoURL repo0)\<rparr> in
             if fileExists (disk w) (ID repo) then
               \<lparr> returned = Error (HTTPError StatusBadRequest ''repo already exists''),
                 response = emptyBuffer, final = w \<rparr>
             else
               (case runCmd E w [''git'', ''clone'', ''--recursive'', RepoURL repo, ID repo] of
                  (Some err, w') \<Rightarrow>
                    \<lparr> returned = Error (ExecError err), response = emptyBuffer, final = w' \<rparr>
                | (None, w') \<Rightarrow>
                    (case loadRepoFiles (disk w') repo of
                       Inl p \<Rightarrow>
                         \<lparr> returned = Panicked p, response = emptyBuffer, final = w' \<rparr>
                     | Inr repo' \<Rightarrow>
                         \<lparr> returned = Nil,
                           response = renderJSON emptyBuffer StatusOK (JSONRepository repo'),
                           final = w' \<rparr>))))"

text \<open>The identifier format as \<open>listRepos\<close> tests it: \<open>regexpMD5.MatchString\<close> for the
  pattern \<open>[0-9a-f]{32}\<close>, which is not anchored.\<close>

fun regexpMD5_MatchString :: "string \<Rightarrow> bool" where
  "regexpMD5_MatchString [] = False"
| "regexpMD5_MatchString (c # cs) =
     ((32 \<le> length (c # cs) \<and> list_all lowerHex (take 32 (c # cs)))
      \<or> regexpMD5_MatchString cs)"

fun listLoop :: "env \<Rightarrow> FileInfo list \<Rightarrow> world \<Rightarrow> Repository list
    \<Rightarrow> ret \<times> Repository list \<times> world" where
  "listLoop E [] w repos = (Nil, repos, w)"
| "listLoop E (fi # fis) w repos =
     (if fi_IsDir fi \<and> regexpMD5_MatchString (fi_Name fi) then
        (case gitRemote E w (fi_Name fi) of
           (Inl err, w1) \<Rightarrow> (Error err, repos, w1)
         | (Inr remote, w1) \<Rightarrow>
             (case repoName E w1 (fi_Name fi) of
                (Inl err, w2) \<Rightarrow> (Error err, repos, w2)
              | (Inr name, w2) \<Rightarrow>
                  (case loadRepoFiles (disk w2)
                          \<lparr> ID = fi_Name fi, RepoName = name, RepoURL = remote, Files = None \<rparr> of
                     Inl p \<Rightarrow> (Panicked p, repos, w2)
                   | Inr repo \<Rightarrow> listLoop E fis w2 (repos @ [repo]))))
      else listLoop E fis w repos)"

definition listRepos :: "env \<Rightarrow> world \<Rightarrow> outcome" where
  "listRepos E w =
     (case os_Open (disk w) ''.'' of
        Inl err \<Rightarrow> \<lparr> returned = Error (SysError err), response = emptyBuffer, final = w \<rparr>
      | Inr d \<Rightarrow>
          (case Readdir d of
             Inl err \<Rightarrow>
               \<lparr> returned = Error (SysError err), response = emptyBuffer, final = w \<rparr>
           | Inr fis \<Rightarrow>
               (case listLoop E fis w [] of
                  (Nil, repos, w') \<Rightarrow>
                    \<lparr> returned = Nil,
                      response = renderJSON emptyBuffer StatusOK (JSONRepositories repos),
                      final = w' \<rparr>
                | (r, repos, w') \<Rightarrow>
                    \<lparr> returned = r, response = emptyBuffer, final = w' \<rparr>)))"

definition getRepo :: "env \<Rightarrow> world \<Rightarrow> string \<Rightarrow> outcome" where
  "getRepo E w repoID =
     (if \<not> fileExists (disk w) repoID then
        \<lparr> returned = Error errNotFound, response = emptyBuffer, final = w \<rparr>
      else
        (case gitRemote E w repoID of
           (Inl err, w1) \<Rightarrow> \<lparr> returned = Error err, response = emptyBuffer, final = w1 \<rparr>
         | (Inr remote, w1) \<Rightarrow>
             (case repoName E w1 repoID of
                (Inl err, w2) \<Rightarrow>
                  \<lparr> returned = Error err, response = emptyBuffer, final = w2 \<rparr>
              | (Inr name, w2) \<Rightarrow>
                  (case loadRepoFiles (disk w2)
                          \<lparr> ID = repoID, RepoName = name, RepoURL = remote, Files = None \<rparr> of
                     Inl p \<Rightarrow>
                       \<lparr> returned = Panicked p, response = emptyBuffer, final = w2 \<rparr>
                   | Inr repo \<Rightarrow>
                       \<lparr> returned = Nil,
                         response = renderJSON emptyBuffer StatusOK (JSONRepository repo),
                         final = w2 \<rparr>))))"

definition deleteRepo :: "env \<Rightarrow> world \<Rightarrow> string \<Rightarrow> outcome" where
  "deleteRepo E w repoID =
     (if \<not> fileExists (disk w) repoID then
        \<lparr> returned = Error errNotFound, response = emptyBuffer, final = w \<rparr>
      else
        (case RemoveAll E repoID (disk w) of
           (Some err, d) \<Rightarrow>
             \<lparr> returned = Error (SysError err), response = emptyBuffer, final = w\<lparr>disk := d\<rparr> \<rparr>
         | (None, d) \<Rightarrow>
             \<lparr> returned = Nil, response = emptyBuffer, final = w\<lparr>disk := d\<rparr> \<rparr>))"

definition buildRepo :: "env \<Rightarrow> world \<Rightarrow> string \<Rightarrow> outcome" where
  "buildRepo E w repoID =
     (if \<not> fileExists (disk w) repoID then
        \<lparr> returned = Error errNotFound, response = emptyBuffer, final = w \<rparr>
      else
        (case run E w [''xcodebuild'', ''-arch'', ''i386'', ''-sdk'', ''iphonesimulator''] repoID of
           ((err, out), w') \<Rightarrow>
             \<lparr> returned = Nil,
               response = \<lparr> rb_status = (if err \<noteq> None then Some StatusInternalServerError else None),
                            rb_body = [Raw out] \<rparr>,
               final = w' \<rparr>))"

text \<open>\<open>ioutil.ReadDir\<close>: the entries sorted by name.\<close>

definition ioutil_ReadDir :: "fsobj \<Rightarrow> string \<Rightarrow> errno + FileInfo list" where
  "ioutil_ReadDir fs name =
     (case os_Open fs name of
        Inl err \<Rightarrow> Inl err
      | Inr d \<Rightarrow>
          (case Readdir d of
             Inl err \<Rightarrow> Inl err
           | Inr fis \<Rightarrow> Inr (sort_key fi_Name fis)))"

fun projectNameOf :: "FileInfo list \<Rightarrow> string" where
  "projectNameOf [] = []"
| "projectNameOf (f # fs) =
     (if HasSuffix (fi_Name f) ''.xcodeproj'' then TrimSuffix (fi_Name f) ''.xcodeproj''
      else projectNameOf fs)"

text \<open>\<open>runRepo\<close> starts the window script in a goroutine and does not wait for it; the
  model starts it before the simulator.\<close>

definition runRepo :: "env \<Rightarrow> world \<Rightarrow> string \<Rightarrow> outcome" where
  "runRepo E w repoID =
     (if \<not> fileExists (disk w) repoID then
        \<lparr> returned = Error errNotFound, response = emptyBuffer, final = w \<rparr>
      else
        (let files = (case ioutil_ReadDir (disk w) (''./'' @ repoID) of
                        Inl err \<Rightarrow> []
                      | Inr fis \<Rightarrow> fis);
             projectName = projectNameOf files;
             w1 = snd (runCmd E w [''osascript'', ''trigger_move_simulator.applescript''])
         in case run E w1 [''ios-sim'', ''launch'',
                  ''build/Release-iphonesimulator/'' @ projectName @ ''.app''] repoID of
              ((Some err, out), w2) \<Rightarrow>
                \<lparr> returned = Error (ExecError err), response = emptyBuffer, final = w2 \<rparr>
            | ((None, out), w2) \<Rightarrow>
                \<lparr> returned = Nil, response = emptyBuffer, final = w2 \<rparr>))"

definition getRepoFile :: "world \<Rightarrow> string \<Rightarrow> string \<Rightarrow> outcome" where
  "getRepoFile w repoID path =
     (let filePath = repoID @ ''/'' @ path in
      case os_Open (disk w) filePath of
        Inl err \<Rightarrow>
          if IsNotExist err then
            \<lparr> returned = Error errNotFound, response = emptyBuffer, final = w \<rparr>
          else
            \<lparr> returned = Error (SysError err), response = emptyBuffer, final = w \<rparr>
      | Inr file \<Rightarrow>
          \<lparr> returned = Nil,
            response = \<lparr> rb_status = None,
                         rb_body = (case readAll file of Inl err \<Rightarrow> [] | Inr d \<Rightarrow> [Raw d]) \<rparr>,
            final = w \<rparr>)"

text \<open>\<open>setRepoFile\<close>; \<open>body\<close> is the request body. The results of \<open>ReadAll\<close>, \<open>Stat\<close> and
  \<open>WriteFile\<close> are not checked.\<close>

definition setRepoFile :: "world \<Rightarrow> string \<Rightarrow> string \<Rightarrow> string \<Rightarrow> outcome" where
  "setRepoFile w repoID path body =
     (let filePath = repoID @ ''/'' @ path in
      case os_Open (disk w) filePath of
        Inl err \<Rightarrow>
          if IsNotExist err then
            \<lparr> returned = Error errNotFound, response = emptyBuffer, final = w \<rparr>
          else
            \<lparr> returned = Nil, response = emptyBuffer, final = w \<rparr>
      | Inr file \<Rightarrow>
          (let f = fileInfo (basename filePath) file;
               d = snd (ioutil_WriteFile (disk w) filePath body (fi_Mode f))
           in \<lparr> returned = Nil, response = emptyBuffer, final = w\<lparr>disk := d\<rparr> \<rparr>))"

text \<open>
  \<open>ServeHTTP\<close>: the status and the body that the client receives. A nil return replays
  the buffer (status 200 unless the handler set one); an \<open>HTTPError\<close> is rendered with
  its own status and message; any other error, and a panic, is a 500.
\<close>

definition ServeHTTP :: "outcome \<Rightarrow> nat \<times> payload list" where
  "ServeHTTP out =
     (case returned out of
        Nil \<Rightarrow>
          ((case rb_status (response out) of None \<Rightarrow> StatusOK | Some st \<Rightarrow> st),
           rb_body (response out))
      | Error (HTTPError st msg) \<Rightarrow> (st, [JSONError st msg])
      | Error e \<Rightarrow>
          (StatusInternalServerError,
           [JSONError StatusInternalServerError ''Internal Server Error''])
      | Panicked p \<Rightarrow>
          (StatusInternalServerError,
           [JSONError StatusInternalServerError ''Internal Server Error'']))"

section \<open>Example worlds\<close>

text \<open>Small concrete disks and an environment in which every child process fails,
  for the instances of the theorems below.\<close>

definition rwx :: perm where "rwx = Perm True True True"

definition quiet :: env where
  "quiet = \<lparr> exec = (\<lambda>argv dir d. (Some ''exit status 1'', [], d)),
             TrimSpace = (\<lambda>u. u),
             RemoveAll = (\<lambda>name d. (Some EACCES, d)) \<rparr>"

definition locked :: fsobj where
  "locked = DirObj (Perm True True False) 4096 []"

definition store_a :: fsobj where
  "store_a = DirObj rwx 4096
     [(''0cc175b9c0f1b6a831c399e269772661'',
         DirObj rwx 4096 [(''README'', FileObj rwx ''hello'')])]"

definition repo_a :: Repository where
  "repo_a = \<lparr>ID = [], RepoName = [], RepoURL = ''a'', Files = None\<rparr>"

definition store_r :: fsobj where
  "store_r = DirObj rwx 4096
     [(''r'', DirObj rwx 4096 [(''a.txt'', FileObj rwx ''0123456789'')])]"

definition store_ro :: fsobj where
  "store_ro = DirObj rwx 4096
     [(''r'', DirObj rwx 4096 [(''a.txt'', FileObj (Perm True False False) ''old'')])]"

definition repo_r :: Repository where
  "repo_r = \<lparr>ID = ''r'', RepoName = [], RepoURL = [], Files = None\<rparr>"

definition store_c1 :: fsobj where
  "store_c1 = DirObj rwx 4096
     [(''r'', DirObj rwx 4096
        [(''sub'', DirObj rwx 4096 [(''b.txt'', FileObj rwx ''01234'')]),
         (''a.txt'', FileObj rwx ''0123456789''),
         (''.git'', DirObj rwx 4096 [(''HEAD'', FileObj rwx ''ref: refs/heads/master'')])])]"




definition store_noread :: fsobj where
  "store_noread = DirObj rwx 4096
     [(''r'', DirObj (Perm False True True) 4096 [(''a.txt'', FileObj rwx ''0123456789'')])]"

text \<open>An environment in which \<open>git\<close> answers, and a store with a directory whose name
  only contains an identifier.\<close>

definition git_ok :: env where
  "git_ok = \<lparr> exec = (\<lambda>argv dir d. (None, ''https://example.com/x.git'', d)),
              TrimSpace = (\<lambda>u. u),
              RemoveAll = (\<lambda>name d. (None, d)) \<rparr>"

definition store_old :: fsobj where
  "store_old = DirObj rwx 4096
     [(''README.md'', FileObj rwx ''hello''),
      (''0cc175b9c0f1b6a831c399e269772661-old'', DirObj rwx 4096 [])]"

section \<open>Facts about the string functions\<close>

lemma Contains_iff: "Contains str sub \<longleftrightarrow> (\<exists>p q. str = p @ sub @ q)"
proof (induction str)
  case Nil
  then show ?case by auto
next
  case (Cons c cs)
  show ?case
  proof
    assume "Contains (c # cs) sub"
    then consider "prefix sub (c # cs)" | "Contains cs sub" by auto
    then show "\<exists>p q. c # cs = p @ sub @ q"
    proof cases
      case 1
      then obtain q where "c # cs = sub @ q" by (auto simp: prefix_def)
      then have "c # cs = [] @ sub @ q" by simp
      then show ?thesis by blast
    next
      case 2
      with Cons.IH obtain p q where "cs = p @ sub @ q" by blast
      then have "c # cs = (c # p) @ sub @ q" by simp
      then show ?thesis by blast
    qed
  next
    assume "\<exists>p q. c # cs = p @ sub @ q"
    then obtain p q where pq: "c # cs = p @ sub @ q" by blast
    show "Contains (c # cs) sub"
    proof (cases p)
      case Nil
      with pq have "prefix sub (c # cs)" by (simp add: prefix_def)
      then show ?thesis by simp
    next
      case (Cons a p')
      with pq have "cs = p' @ sub @ q" by simp
      with Cons.IH have "Contains cs sub" by blast
      then show ?thesis by simp
    qed
  qed
qed

lemma Split_not_Nil: "Split str sep \<noteq> []"
  by (induction str) (auto split: list.splits)

lemma Split_no_sep: "sep \<notin> set str \<Longrightarrow> Split str sep = [str]"
  by (induction str) auto

lemma Split_append_sep:
  "sep \<notin> set a \<Longrightarrow> Split (a @ sep # b) sep = a # Split b sep"
  by (induction a) (auto simp: Split_not_Nil split: list.splits)

lemma Join_Split: "Join (Split str sep) sep = str"
proof (induction str)
  case Nil
  show ?case by simp
next
  case (Cons c cs)
  obtain w ws where sp: "Split cs sep = w # ws"
    using Split_not_Nil [of cs sep] by (cases "Split cs sep") auto
  show ?case
  proof (cases "c = sep")
    case True
    with Cons sp show ?thesis by simp
  next
    case False
    with Cons sp show ?thesis by (cases ws) auto
  qed
qed

lemma segment_Contains: "seg \<in> set (Split str sep) \<Longrightarrow> Contains str seg"
proof (induction str arbitrary: seg)
  case Nil
  then show ?case by simp
next
  case (Cons c cs)
  obtain w ws where sp: "Split cs sep = w # ws"
    using Split_not_Nil [of cs sep] by (cases "Split cs sep") auto
  have w_pre: "prefix w cs"
    using sp
  proof (induction cs arbitrary: w ws)
    case Nil
    then show ?case by simp
  next
    case (Cons d ds)
    then show ?case
      by (cases "Split ds sep") (auto simp: Split_not_Nil split: if_splits)
  qed
  show ?case
  proof (cases "c = sep")
    case True
    with Cons.prems have "seg = [] \<or> seg \<in> set (Split cs sep)" by simp
    then show ?thesis using Cons.IH by auto
  next
    case False
    with Cons.prems sp have "seg = c # w \<or> seg \<in> set ws" by simp
    then show ?thesis
    proof
      assume "seg = c # w"
      with w_pre show ?thesis by simp
    next
      assume "seg \<in> set ws"
      with sp have "seg \<in> set (Split cs sep)" by simp
      with Cons.IH show ?thesis by simp
    qed
  qed
qed







lemma tl_Split_root:
  "CHR ''/'' \<notin> set root \<Longrightarrow> tl (Split (root @ CHR ''/'' # rel) CHR ''/'') = Split rel CHR ''/''"
  by (simp add: Split_append_sep)

lemma Split_append:
  "Split (a @ sep # b) sep = Split a sep @ Split b sep"
  by (induction a) (auto simp: Split_not_Nil split: list.splits)

lemma cleanStack_valid:
  "list_all validName cs \<Longrightarrow> cleanStack rooted cs st = rev st @ cs"
  by (induction cs arbitrary: st) (auto simp: validName_def)

lemma validPath_not_rooted:
  assumes "validPath path"
  shows "path \<noteq> []" and "hd path \<noteq> CHR ''/''"
proof -
  show "path \<noteq> []"
    using assms by (auto simp: validPath_def validName_def)
  show "hd path \<noteq> CHR ''/''"
  proof (cases path)
    case Nil
    with assms show ?thesis by (simp add: validPath_def validName_def)
  next
    case (Cons c cs)
    with assms show ?thesis
      by (auto simp: validPath_def validName_def)
  qed
qed

lemma Clean_valid:
  assumes "validPath path"
  shows "Clean path = path"
proof -
  from assms have cs: "cleanStack False (Split path CHR ''/'') [] = Split path CHR ''/''"
    by (simp add: validPath_def cleanStack_valid)
  from validPath_not_rooted [OF assms] cs show ?thesis
    by (simp add: Clean_def Let_def Join_Split)
qed

lemma validPath_name: "validName n \<Longrightarrow> validPath n"
  by (simp add: validPath_def validName_def Split_no_sep)

lemma validPath_snoc:
  "validPath path \<Longrightarrow> validName m \<Longrightarrow> validPath (path @ CHR ''/'' # m)"
  by (simp add: validPath_def Split_append Split_no_sep validName_def)

lemma Join_valid:
  assumes "validPath path" and "validName m"
  shows "filepath_Join path m = path @ CHR ''/'' # m"
proof -
  have "validPath (path @ CHR ''/'' # m)" using assms by (rule validPath_snoc)
  then have "Clean (path @ CHR ''/'' # m) = path @ CHR ''/'' # m" by (rule Clean_valid)
  with validPath_not_rooted(1) [OF assms(1)] show ?thesis
    by (simp add: filepath_Join_def)
qed

section \<open>Facts about the identifier\<close>

lemma length_md5_Sum: "length (md5_Sum d) = 16"
  by (simp add: md5_Sum_def Let_def putUint32_def split: prod.splits)

lemma length_sprintf_x: "length (sprintf_x bs) = 2 * length bs"
  by (induction bs) (simp_all add: sprintf_x_def)

lemma lowerHex_hexdigit: "lowerHex (hexdigit n)"
proof -
  have "n mod 16 < length ''0123456789abcdef''" by simp
  then have "''0123456789abcdef'' ! (n mod 16) \<in> set ''0123456789abcdef''"
    by (rule nth_mem)
  then show ?thesis by (simp only: lowerHex_def hexdigit_def)
qed

lemma lowerHex_sprintf_x: "list_all lowerHex (sprintf_x bs)"
  by (induction bs) (simp_all add: sprintf_x_def lowerHex_hexdigit)

lemma md5String_isIdentifier: "isIdentifier (md5String str)"
  by (simp add: isIdentifier_def md5String_def length_sprintf_x length_md5_Sum
      lowerHex_sprintf_x)

lemma lowerHex_not_special: "lowerHex c \<Longrightarrow> c \<noteq> CHR ''/'' \<and> c \<noteq> CHR ''.''"
  by (auto simp: lowerHex_def)

lemma md5String_a: "md5String ''a'' = ''0cc175b9c0f1b6a831c399e269772661''"
  by code_simp

section \<open>Facts about the file system\<close>

lemma map_of_put: "map_of (put k v kvs) k' = (if k' = k then Some v else map_of kvs k')"
  by (induction kvs) auto

lemma keys_put: "fst ` set (put k v kvs) = insert k (fst ` set kvs)"
proof -
  have "dom (map_of (put k v kvs)) = insert k (dom (map_of kvs))"
    by (auto simp: map_of_put dom_def)
  then show ?thesis by (simp add: dom_map_of_conv_image_fst)
qed

lemma map_of_None_keys: "map_of kvs k = None \<longleftrightarrow> k \<notin> fst ` set kvs"
  by (simp add: map_of_eq_None_iff)

lemma alike_refl: "alike ob ob"
  by (cases ob) auto

lemma lookup_append:
  "lookup fs (ps @ qs) = (case lookup fs ps of None \<Rightarrow> None | Some ob \<Rightarrow> lookup ob qs)"
  by (induction ps arbitrary: fs) (auto split: fsobj.splits option.splits)

lemma namei_append:
  "namei fs cur (as @ bs) =
     (case namei fs cur as of Inl e \<Rightarrow> Inl e | Inr c \<Rightarrow> namei fs c bs)"
  by (induction as arbitrary: cur) (auto split: fsobj.splits option.splits)

lemma lookup_update_at:
  "lookup fs cp = Some old \<Longrightarrow> lookup (update_at fs cp new) cp = Some new"
proof (induction cp arbitrary: fs)
  case Nil
  then show ?case by simp
next
  case (Cons n ns)
  then show ?case
    by (auto simp: map_of_put split: fsobj.splits option.splits)
qed

lemma alike_update_at:
  "lookup fs cp = Some (FileObj p d) \<Longrightarrow>
   rel_option alike (lookup fs q) (lookup (update_at fs cp (FileObj p' d')) q)"
proof (induction cp arbitrary: fs q)
  case Nil
  then show ?case by (cases q) auto
next
  case (Cons n ns)
  from Cons.prems obtain pp sz ents child where
    fs: "fs = DirObj pp sz ents" and child: "map_of ents n = Some child"
    and sub: "lookup child ns = Some (FileObj p d)"
    by (auto split: fsobj.splits option.splits)
  have n_in: "n \<in> fst ` set ents"
    using child map_of_None_keys [of ents n] by auto
  show ?case
  proof (cases q)
    case Nil
    with fs child n_in show ?thesis by (simp add: keys_put insert_absorb)
  next
    case (Cons m ms)
    show ?thesis
    proof (cases "m = n")
      case True
      with fs child Cons Cons.IH [OF sub, of ms] show ?thesis
        by (simp add: map_of_put)
    next
      case False
      have "rel_option alike (lookup fs q) (lookup fs q)"
        by (cases "lookup fs q") (simp_all add: alike_refl)
      with False fs child Cons show ?thesis
        by (simp add: map_of_put)
    qed
  qed
qed

lemma namei_alike:
  "(\<And>q. rel_option alike (lookup fs q) (lookup fs' q)) \<Longrightarrow>
   namei fs' cur cs = namei fs cur cs"
proof (induction cs arbitrary: cur)
  case Nil
  show ?case by simp
next
  case (Cons c cs)
  have r: "rel_option alike (lookup fs cur) (lookup fs' cur)" by (rule Cons.prems)
  have ih: "\<And>cur. namei fs' cur cs = namei fs cur cs"
    by (rule Cons.IH) (rule Cons.prems)
  show ?case
  proof (cases "lookup fs cur")
    case None
    with r show ?thesis by (cases "lookup fs' cur") auto
  next
    case (Some ob)
    with r obtain ob' where s': "lookup fs' cur = Some ob'" and al: "alike ob ob'"
      by (cases "lookup fs' cur") auto
    show ?thesis
    proof (cases ob)
      case (FileObj p d)
      with al obtain p' d' where "ob' = FileObj p' d'" by (cases ob') auto
      with Some s' FileObj show ?thesis by simp
    next
      case (DirObj p sz ents)
      with al obtain p' sz' ents' where ob': "ob' = DirObj p' sz' ents'"
        and se: "may_search p = may_search p'" and ks: "fst ` set ents = fst ` set ents'"
        by (cases ob') auto
      have "map_of ents c = None \<longleftrightarrow> map_of ents' c = None"
        using ks by (simp add: map_of_None_keys)
      with Some s' DirObj ob' se ih show ?thesis
        by (auto split: option.splits)
    qed
  qed
qed

lemma lookup_parent_dir:
  "lookup fs cur = Some ob \<Longrightarrow> \<exists>p sz ents. lookup fs (butlast cur) = Some (DirObj p sz ents)
     \<or> cur = []"
proof (cases cur rule: rev_cases)
  case Nil
  then show ?thesis by simp
next
  case (snoc ps n)
  assume "lookup fs cur = Some ob"
  with snoc show ?thesis
    by (auto simp: lookup_append split: option.splits fsobj.splits)
qed

lemma namei_last_file:
  assumes "namei fs dir [n] = Inr cp" and "lookup fs cp = Some (FileObj p d)"
  shows "\<exists>q sz ents. lookup fs dir = Some (DirObj q sz ents) \<and> may_search q
           \<and> n \<noteq> [] \<and> n \<noteq> ''.'' \<and> n \<noteq> ''..''
           \<and> map_of ents n = Some (FileObj p d) \<and> cp = dir @ [n]"
proof -
  from assms(1) obtain q sz ents where
    dir: "lookup fs dir = Some (DirObj q sz ents)" and se: "may_search q"
    by (auto split: option.splits fsobj.splits if_splits)
  have stay: "n \<noteq> [] \<and> n \<noteq> ''.''"
  proof (rule ccontr)
    assume "\<not> (n \<noteq> [] \<and> n \<noteq> ''.'')"
    with assms(1) dir se have "cp = dir" by auto
    with assms(2) dir show False by simp
  qed
  have up: "n \<noteq> ''..''"
  proof
    assume "n = ''..''"
    with assms(1) dir se have cp: "cp = butlast dir" by auto
    from lookup_parent_dir [OF dir] cp assms(2) dir show False by auto
  qed
  from assms(1) dir se stay up obtain child where
    ch: "map_of ents n = Some child" and cp: "cp = dir @ [n]"
    by (auto split: option.splits)
  from assms(2) cp dir ch have "child = FileObj p d"
    by (simp add: lookup_append)
  with dir se stay up ch cp show ?thesis by blast
qed

lemma WriteFile_existing:
  assumes "os_Open fs name = Inr (FileObj p d)" and "may_write p"
  shows "\<exists>cp. resolve fs name = Inr cp \<and> lookup fs cp = Some (FileObj p d)
           \<and> ioutil_WriteFile fs name body pm = (None, update_at fs cp (FileObj p body))"
proof -
  from assms(1) obtain cp where res: "resolve fs name = Inr cp"
    and lk: "lookup fs cp = Some (FileObj p d)"
    by (auto simp: os_Open_def split: sum.splits option.splits if_splits)
  from res have ne: "name \<noteq> []" and nm: "namei fs [] (Split name CHR ''/'') = Inr cp"
    by (auto simp: resolve_def split: if_splits)
  let ?comps = "Split name CHR ''/''"
  have "?comps = butlast ?comps @ [last ?comps]"
    using Split_not_Nil [of name "CHR ''/''"] by simp
  with nm have "namei fs [] (butlast ?comps @ [last ?comps]) = Inr cp" by simp
  then obtain dir where d1: "namei fs [] (butlast ?comps) = Inr dir"
    and d2: "namei fs dir [last ?comps] = Inr cp"
    by (auto simp only: namei_append split: sum.splits)
  from namei_last_file [OF d2 lk] obtain q sz ents where
    "lookup fs dir = Some (DirObj q sz ents)" "may_search q"
    "last ?comps \<noteq> []" "last ?comps \<noteq> ''.''" "last ?comps \<noteq> ''..''"
    "map_of ents (last ?comps) = Some (FileObj p d)" "cp = dir @ [last ?comps]"
    by blast
  with ne d1 assms(2)
  have "ioutil_WriteFile fs name body pm = (None, update_at fs cp (FileObj p body))"
    by (simp add: ioutil_WriteFile_def Let_def)
  with res lk show ?thesis by blast
qed

lemma Open_after_update:
  assumes "resolve fs name = Inr cp" and "lookup fs cp = Some (FileObj p d)"
    and "may_read p"
  shows "os_Open (update_at fs cp (FileObj p body)) name = Inr (FileObj p body)"
proof -
  let ?fs' = "update_at fs cp (FileObj p body)"
  have "\<And>q. rel_option alike (lookup fs q) (lookup ?fs' q)"
    by (rule alike_update_at [OF assms(2)])
  then have "\<And>cur cs. namei ?fs' cur cs = namei fs cur cs"
    by (rule namei_alike)
  with assms(1) have "resolve ?fs' name = Inr cp"
    by (simp add: resolve_def split: if_splits)
  moreover have "lookup ?fs' cp = Some (FileObj p body)"
    by (rule lookup_update_at [OF assms(2)])
  ultimately show ?thesis using assms(3) by (simp add: os_Open_def operm_def)
qed

section \<open>Facts about the walk and the tree builder\<close>

lemma wellFormed_lookup:
  "wellFormed fs \<Longrightarrow> lookup fs cp = Some ob \<Longrightarrow> wellFormed ob"
proof (induction cp arbitrary: fs)
  case Nil
  then show ?case by simp
next
  case (Cons n ns)
  from Cons.prems obtain p sz ents child where
    fs: "fs = DirObj p sz ents" and ch: "map_of ents n = Some child"
    and lk: "lookup child ns = Some ob"
    by (auto split: fsobj.splits option.splits)
  from ch have "(n, child) \<in> set ents" by (rule map_of_SomeD)
  with Cons.prems(1) fs have "wellFormed child" by (auto simp: list_all_iff)
  from Cons.IH [OF this lk] show ?case .
qed

lemma walk_paths:
  "wellFormed ob \<Longrightarrow> validPath p \<Longrightarrow> (path, f, err) \<in> set (walk p n ob) \<Longrightarrow>
   path = p \<or> (\<exists>rel. path = p @ CHR ''/'' # rel)"
proof (induction p n ob arbitrary: path f err rule: walk.induct)
  case (1 p n pm d)
  then show ?case by (simp add: walk.simps)
next
  case (2 p n pm sz ents)
  show ?case
  proof (cases "may_read pm")
    case False
    with "2.prems" show ?thesis by (simp add: walk.simps)
  next
    case True
    with "2.prems"(3) consider "path = p"
      | m child where "(m, child) \<in> set ents"
          "(path, f, err) \<in> set (if \<not> may_search pm then [(filepath_Join p m, None, Some EACCES)]
                                   else walk (filepath_Join p m) m child)"
      by (auto simp: walk.simps)
    then show ?thesis
    proof cases
      case 1
      then show ?thesis by simp
    next
      case (2 m child)
      from "2.prems"(1) 2(1) have vn: "validName m" and wf: "wellFormed child"
        by (auto simp: list_all_iff)
      have j: "filepath_Join p m = p @ CHR ''/'' # m"
        using "2.prems"(2) vn by (rule Join_valid)
      have vp: "validPath (filepath_Join p m)"
        using "2.prems"(2) vn by (simp add: j validPath_snoc)
      show ?thesis
      proof (cases "may_search pm")
        case False
        with 2 j show ?thesis by simp
      next
        case s: True
        from 2(1) have mem: "(m, child) \<in> set (sort_key fst ents)" by simp
        from 2(2) s have w: "(path, f, err) \<in> set (walk (filepath_Join p m) m child)" by simp
        have "path = filepath_Join p m \<or> (\<exists>rel. path = filepath_Join p m @ CHR ''/'' # rel)"
          using "2.IH" [of "(m, child)" m child path f err] True mem s w wf vp by simp
        with j show ?thesis by auto
      qed
    qed
  qed
qed

lemma Walk_paths:
  assumes "wellFormed fs" and "validName root" and "(path, f, err) \<in> set (Walk fs root)"
  shows "path = root \<or> (\<exists>rel. path = root @ CHR ''/'' # rel)"
proof (cases "resolve fs root")
  case (Inl e)
  with assms(3) show ?thesis by (simp add: Walk_def)
next
  case (Inr cp)
  show ?thesis
  proof (cases "lookup fs cp")
    case None
    with Inr assms(3) show ?thesis by (simp add: Walk_def)
  next
    case (Some ob)
    with Inr assms(3) have "(path, f, err) \<in> set (walk root (basename root) ob)"
      by (simp add: Walk_def)
    moreover have "wellFormed ob" using assms(1) Some by (rule wellFormed_lookup)
    moreover have "validPath root" using assms(2) by (rule validPath_name)
    ultimately show ?thesis by (auto dest: walk_paths)
  qed
qed

lemma withURL_file:
  assumes "CHR ''/'' \<notin> set repoID" and "\<not> fi_IsDir fi"
  shows "withURL repoID (repoID @ CHR ''/'' # rel) (makeNode fi) =
     FileNode ''file'' (fi_Name fi) (fi_Size fi)
       (''/repositories/'' @ repoID @ ''/files/'' @ rel) []"
  using assms
  by (simp add: withURL_def makeNode_def fileType_def typeFile_def tl_Split_root Join_Split)





lemma visit_first:
  "\<not> Contains path ''.git'' \<Longrightarrow>
   visitFunc repoID path (Some fi) err None = Inr (Some (makeNode fi))"
  by (simp add: visitFunc_def)




lemma setDeepNode_total:
  "keys \<noteq> [] \<Longrightarrow> \<exists>b'. setDeepNode b keys f = Some b' \<and> Name b' = Name b \<and> Type b' = Type b"
proof (induction keys arbitrary: b)
  case Nil
  then show ?case by simp
next
  case (Cons k ks)
  show ?case
  proof (cases "map_of (Children b) k")
    case None
    then show ?thesis by (simp add: setChild_def)
  next
    case (Some v)
    show ?thesis
    proof (cases "ks = []")
      case True
      with Some show ?thesis by (simp add: setChild_def)
    next
      case False
      from Cons.IH [OF False, of v] obtain v' where "setDeepNode v ks f = Some v'" by blast
      with Some False show ?thesis by (simp add: setChild_def)
    qed
  qed
qed

lemma visitFunc_total:
  "\<exists>root'. visitFunc repoID path (Some fi) err (Some root) = Inr (Some root')
     \<and> Name root' = Name root \<and> Type root' = Type root"
proof (cases "Contains path ''.git''")
  case True
  then show ?thesis by (simp add: visitFunc_def)
next
  case False
  let ?parts = "tl (Split path CHR ''/'')"
  let ?node = "withURL repoID path (makeNode fi)"
  show ?thesis
  proof (cases "length ?parts \<le> 1")
    case True
    with False show ?thesis by (simp add: visitFunc_def Let_def setChild_def)
  next
    case long: False
    then have "butlast ?parts \<noteq> []" by (cases ?parts rule: rev_cases) auto
    from setDeepNode_total [OF this, of root ?node] obtain root' where
      "setDeepNode root (butlast ?parts) ?node = Some root'"
      "Name root' = Name root" "Type root' = Type root" by blast
    with False long show ?thesis by (simp add: visitFunc_def Let_def)
  qed
qed

lemma visitAll_total:
  "(\<And>path f err. (path, f, err) \<in> set calls \<Longrightarrow> f \<noteq> None) \<Longrightarrow>
   \<exists>root'. visitAll repoID calls (Some root) = Inr (Some root')
     \<and> Name root' = Name root \<and> Type root' = Type root"
proof (induction calls arbitrary: root)
  case Nil
  show ?case by simp
next
  case (Cons c calls)
  obtain path f err where c: "c = (path, f, err)" by (cases c) auto
  with Cons.prems [of path f err] obtain fi where f: "f = Some fi" by auto
  from visitFunc_total [of repoID path fi err root] obtain r1 where
    v: "visitFunc repoID path (Some fi) err (Some root) = Inr (Some r1)"
    and n1: "Name r1 = Name root" "Type r1 = Type root" by blast
  have "\<exists>root'. visitAll repoID calls (Some r1) = Inr (Some root')
     \<and> Name root' = Name r1 \<and> Type root' = Type r1"
  proof (rule Cons.IH)
    fix path f err
    assume "(path, f, err) \<in> set calls"
    then show "f \<noteq> None" using Cons.prems [of path f err] by simp
  qed
  with c f v n1 show ?case by simp
qed

lemma walk_lstatable:
  "lstatable ob \<Longrightarrow> (path, f, err) \<in> set (walk p n ob) \<Longrightarrow> f \<noteq> None"
proof (induction p n ob arbitrary: path f err rule: walk.induct)
  case (1 p n pm d)
  then show ?case by (simp add: walk.simps)
next
  case (2 p n pm sz ents)
  show ?case
  proof (cases "may_read pm")
    case False
    with "2.prems" show ?thesis by (simp add: walk.simps)
  next
    case True
    with "2.prems"(1) have s: "may_search pm"
      and all: "list_all (\<lambda>e. lstatable (snd e)) ents" by simp_all
    from "2.prems"(2) True s consider "f \<noteq> None"
      | m child where "(m, child) \<in> set ents"
          "(path, f, err) \<in> set (walk (filepath_Join p m) m child)"
      by (auto simp: walk.simps)
    then show ?thesis
    proof cases
      case 1
      then show ?thesis .
    next
      case (2 m child)
      from 2(1) have mem: "(m, child) \<in> set (sort_key fst ents)" by simp
      from all 2(1) have "lstatable child" by (auto simp: list_all_iff)
      then show ?thesis
        using "2.IH" [of "(m, child)" m child path f err] True mem s 2(2) by simp
    qed
  qed
qed

lemma walk_head:
  "\<exists>fi err rest. walk p n ob = (p, Some fi, err) # rest
     \<and> fi_Name fi = n \<and> fi_IsDir fi = isDirObj ob"
  by (cases ob) (auto simp: walk.simps fileInfo_def isDirObj_def)

lemma visitFunc_later:
  assumes "CHR ''/'' \<notin> set repoID" and "\<not> Contains (repoID @ CHR ''/'' # rel) ''.git''"
  shows "visitFunc repoID (repoID @ CHR ''/'' # rel) (Some fi) err (Some root) =
     (if length (Split rel CHR ''/'') \<le> 1
      then Inr (Some (setChild root (fi_Name fi)
                  (withURL repoID (repoID @ CHR ''/'' # rel) (makeNode fi))))
      else (case setDeepNode root (butlast (Split rel CHR ''/''))
                   (withURL repoID (repoID @ CHR ''/'' # rel) (makeNode fi)) of
              None \<Rightarrow> Inl IndexOutOfRange
            | Some root' \<Rightarrow> Inr (Some root')))"
proof -
  have n: "Name (withURL repoID (repoID @ CHR ''/'' # rel) (makeNode fi)) = fi_Name fi"
    by (simp add: withURL_def makeNode_def)
  show ?thesis
    using assms
    by (simp add: visitFunc_def Let_def tl_Split_root n del: One_nat_def)
qed

lemma walk_store_r: "Walk store_r ''r'' =
  [(''r'', Some \<lparr>fi_Name = ''r'', fi_Size = 4096, fi_IsDir = True, fi_Mode = rwx\<rparr>, None),
   (''r/a.txt'', Some \<lparr>fi_Name = ''a.txt'', fi_Size = 10, fi_IsDir = False, fi_Mode = rwx\<rparr>, None)]"
  by (simp add: Walk_def walk.simps resolve_def store_r_def rwx_def basename_def fileInfo_def
      filepath_Join_def Clean_def)

lemma load_store_r: "loadRepoFiles store_r repo_r =
   Inr (repo_r\<lparr>Files := Some (FileNode ''dir'' ''r'' 4096 []
        [(''a.txt'', FileNode ''file'' ''a.txt'' 10 ''/repositories/r/files/a.txt'' [])])\<rparr>)"
  by (simp add: loadRepoFiles_def walk_store_r repo_r_def visitFunc_def makeNode_def
      withURL_def fileType_def typeDir_def typeFile_def setChild_def Let_def)




text \<open>At the root \<open>.\<close> the walk reports cleaned paths, without the root in front.\<close>

lemma Walk_dot: "map fst (Walk store_r ''.'') = [''.'', ''r'', ''r/a.txt'']"
  by (simp add: Walk_def walk.simps resolve_def store_r_def rwx_def basename_def fileInfo_def
      filepath_Join_def Clean_def)

lemma load_dot:
  "loadRepoFiles store_r (repo_r\<lparr>ID := ''.''\<rparr>) =
     Inr (repo_r\<lparr>ID := ''.'', Files := Some (FileNode ''dir'' ''.'' 4096 []
        [(''r'', FileNode ''dir'' ''r'' 4096 [] []),
         (''a.txt'', FileNode ''file'' ''a.txt'' 10 ''/repositories/./files/a.txt'' [])])\<rparr>)"
  by code_simp

lemma fi_a_in_walk:
  "(''r/a.txt'', Some \<lparr>fi_Name = ''a.txt'', fi_Size = 10, fi_IsDir = False, fi_Mode = rwx\<rparr>, None)
     \<in> set (Walk store_r ''r'')"
  by (simp add: walk_store_r)

lemma resolve_store_c1: "resolve store_c1 ''r'' = Inr [''r'']"
  by (simp add: resolve_def store_c1_def rwx_def)

section \<open>Facts about the handlers\<close>

lemma fileExists_iff:
  "fileExists fs name \<longleftrightarrow> \<not> (\<exists>e. os_Stat fs (''./'' @ name) = Inl e \<and> IsNotExist e)"
  by (auto simp: fileExists_def split: sum.splits)

lemma gitRemote_error: "gitRemote E w p = (Inl e, w') \<Longrightarrow> \<exists>m. e = ExecError m"
  by (auto simp: gitRemote_def split: prod.splits option.splits)

lemma repoName_error: "repoName E w p = (Inl e, w') \<Longrightarrow> \<exists>m. e = ExecError m"
  by (auto simp: repoName_def split: prod.splits sum.splits dest: gitRemote_error)

lemma getRepo_exists:
  "fileExists (disk w) i \<Longrightarrow> returned (getRepo E w i) \<noteq> Error (HTTPError st msg)"
  by (auto simp: getRepo_def split: prod.splits sum.splits
      dest: gitRemote_error repoName_error)

lemma deleteRepo_exists:
  "fileExists (disk w) i \<Longrightarrow> returned (deleteRepo E w i) \<noteq> Error (HTTPError st msg)"
  by (auto simp: deleteRepo_def split: prod.splits option.splits)

lemma buildRepo_exists:
  "fileExists (disk w) i \<Longrightarrow> returned (buildRepo E w i) \<noteq> Error (HTTPError st msg)"
  by (auto simp: buildRepo_def split: prod.splits)

lemma runRepo_exists:
  "fileExists (disk w) i \<Longrightarrow> returned (runRepo E w i) \<noteq> Error (HTTPError st msg)"
  by (auto simp: runRepo_def Let_def split: prod.splits option.splits)

lemma createRepo_exists:
  "RepoURL repo \<noteq> [] \<Longrightarrow> fileExists (disk w) (md5String (RepoURL repo)) \<Longrightarrow>
   createRepo E w (Inr repo) =
     \<lparr> returned = Error (HTTPError StatusBadRequest ''repo already exists''),
       response = emptyBuffer, final = w \<rparr>"
  by (simp add: createRepo_def Let_def)

lemma handlers_missing:
  "\<not> fileExists (disk w) i \<Longrightarrow>
     returned (getRepo E w i) = Error errNotFound \<and> final (getRepo E w i) = w
   \<and> returned (deleteRepo E w i) = Error errNotFound \<and> final (deleteRepo E w i) = w
   \<and> returned (buildRepo E w i) = Error errNotFound \<and> final (buildRepo E w i) = w
   \<and> returned (runRepo E w i) = Error errNotFound \<and> final (runRepo E w i) = w"
  by (simp add: getRepo_def deleteRepo_def buildRepo_def runRepo_def)

lemma stat_locked: "os_Stat locked (''./'' @ n) = Inl EACCES"
  by (simp add: os_Stat_def resolve_def locked_def)


lemma stat_store_a:
  "os_Stat store_a (''./'' @ md5String ''a'') =
     Inr \<lparr> fi_Name = ''0cc175b9c0f1b6a831c399e269772661'', fi_Size = 4096,
           fi_IsDir = True, fi_Mode = rwx \<rparr>"
  by (simp add: md5String_a os_Stat_def resolve_def store_a_def rwx_def fileInfo_def
      basename_def)

lemma open_missing: "os_Open store_r (''r'' @ ''/'' @ ''b.txt'') = Inl ENOENT"
  by (simp add: os_Open_def resolve_def store_r_def rwx_def)

lemma open_store_r:
  "os_Open store_r (''r'' @ ''/'' @ ''a.txt'') = Inr (FileObj rwx ''0123456789'')"
  by (simp add: os_Open_def resolve_def store_r_def rwx_def operm_def)

section \<open>Facts about the enumeration\<close>

lemma open_dot:
  "os_Open (DirObj p sz ents) ''.'' =
     (if may_search p \<and> may_read p then Inr (DirObj p sz ents) else Inl EACCES)"
  by (simp add: os_Open_def resolve_def operm_def)

lemma loadRepoFiles_ID: "loadRepoFiles fs repo = Inr repo' \<Longrightarrow> ID repo' = ID repo"
  by (auto simp: loadRepoFiles_def split: sum.splits)

lemma listLoop_ids:
  "listLoop E fis w acc = (Nil, repos, w') \<Longrightarrow>
   map ID repos =
     map ID acc @ map fi_Name (filter (\<lambda>fi. fi_IsDir fi \<and> regexpMD5_MatchString (fi_Name fi)) fis)"
proof (induction fis arbitrary: w acc)
  case Nil
  then show ?case by simp
next
  case (Cons fi fis)
  show ?case
  proof (cases "fi_IsDir fi \<and> regexpMD5_MatchString (fi_Name fi)")
    case False
    with Cons.prems have "listLoop E fis w acc = (Nil, repos, w')" by auto
    from Cons.IH [OF this] False show ?thesis by auto
  next
    case True
    with Cons.prems obtain remote w1 name w2 repo where
      "loadRepoFiles (disk w2)
         \<lparr>ID = fi_Name fi, RepoName = name, RepoURL = remote, Files = None\<rparr> = Inr repo"
      and rest: "listLoop E fis w2 (acc @ [repo]) = (Nil, repos, w')"
      by (auto split: prod.splits sum.splits)
    from loadRepoFiles_ID [OF this(1)] have "ID repo = fi_Name fi" by simp
    with Cons.IH [OF rest] True show ?thesis by simp
  qed
qed

lemma dir_entries:
  "map fi_Name (filter (\<lambda>fi. fi_IsDir fi \<and> regexpMD5_MatchString (fi_Name fi))
      (map (\<lambda>(n, child). fileInfo n child) ents)) =
   [n. (n, ob) \<leftarrow> ents, isDirObj ob \<and> regexpMD5_MatchString n]"
  by (induction ents) (auto simp: fileInfo_def isDirObj_def split: fsobj.splits)

lemma MatchString_here: "isIdentifier m \<Longrightarrow> regexpMD5_MatchString (m @ post)"
  by (cases m) (auto simp: isIdentifier_def)

lemma MatchString_later: "regexpMD5_MatchString str \<Longrightarrow> regexpMD5_MatchString (pre @ str)"
  by (induction pre) auto

lemma MatchString_iff:
  "regexpMD5_MatchString str \<longleftrightarrow> (\<exists>pre m post. str = pre @ m @ post \<and> isIdentifier m)"
proof
  assume "regexpMD5_MatchString str"
  then show "\<exists>pre m post. str = pre @ m @ post \<and> isIdentifier m"
  proof (induction str)
    case Nil
    then show ?case by simp
  next
    case (Cons c cs)
    then consider "32 \<le> length (c # cs)" "list_all lowerHex (take 32 (c # cs))"
      | "regexpMD5_MatchString cs" by auto
    then show ?case
    proof cases
      case 1
      then have "isIdentifier (take 32 (c # cs))" by (simp add: isIdentifier_def)
      moreover have "c # cs = [] @ take 32 (c # cs) @ drop 32 (c # cs)" by simp
      ultimately show ?thesis by blast
    next
      case 2
      with Cons.IH obtain pre m post where "cs = pre @ m @ post" "isIdentifier m" by blast
      then have "c # cs = (c # pre) @ m @ post \<and> isIdentifier m" by simp
      then show ?thesis by blast
    qed
  qed
next
  assume "\<exists>pre m post. str = pre @ m @ post \<and> isIdentifier m"
  then show "regexpMD5_MatchString str"
    by (auto intro: MatchString_later MatchString_here)
qed

lemma list_store_old:
  "listRepos git_ok \<lparr>disk = store_old, procs = []\<rparr> =
     \<lparr> returned = Nil,
       response = \<lparr> rb_status = Some 200, rb_body = [JSONRepositories
          [\<lparr> ID = ''0cc175b9c0f1b6a831c399e269772661-old'', RepoName = ''x'',
             RepoURL = ''https://example.com/x.git'',
             Files = Some (FileNode ''dir'' ''0cc175b9c0f1b6a831c399e269772661-old'' 4096 [] []) \<rparr>]] \<rparr>,
       final = \<lparr> disk = store_old,
                 procs = [([''git'', ''config'', ''--get'', ''remote.origin.url''],
                             ''0cc175b9c0f1b6a831c399e269772661-old''),
                          ([''git'', ''config'', ''--get'', ''remote.origin.url''],
                             ''0cc175b9c0f1b6a831c399e269772661-old'')] \<rparr> \<rparr>"
  by code_simp

lemma list_store_a_returned:
  "returned (listRepos git_ok \<lparr>disk = store_a, procs = []\<rparr>) = Nil"
  by code_simp

section \<open>Claims about the identifier and the classifier\<close>

text \<open>
  C9. \<open>md5String\<close> is a function of the URL string alone: every call starts from the
  fresh state \<open>md5_New\<close>, so equal URLs give equal identifiers. For every URL the
  result has exactly 32 characters, each of them one of \<open>0123456789abcdef\<close>.
\<close>

theorem C9_identifier_format:
  "md5String url = sprintf_x (md5_Sum (md5_Write md5_New (map of_char url)))
   \<and> length (md5String url) = 32
   \<and> set (md5String url) \<subseteq> set ''0123456789abcdef''"
proof -
  have a: "md5String url = sprintf_x (md5_Sum (md5_Write md5_New (map of_char url)))"
    by (rule md5String_def)
  have "isIdentifier (md5String url)" by (rule md5String_isIdentifier)
  then have b: "length (md5String url) = 32" and "list_all lowerHex (md5String url)"
    by (simp_all only: isIdentifier_def)
  then have c: "set (md5String url) \<subseteq> set ''0123456789abcdef''"
    unfolding list_all_iff lowerHex_def by blast
  from a b c show ?thesis by blast
qed

theorem C9_identifier_format_witness:
  "md5String ''a'' = ''0cc175b9c0f1b6a831c399e269772661''
   \<and> length (md5String ''a'') = 32
   \<and> set (md5String ''a'') \<subseteq> set ''0123456789abcdef''"
proof -
  have "md5String ''a'' = ''0cc175b9c0f1b6a831c399e269772661''" by (rule md5String_a)
  then show ?thesis using C9_identifier_format [of "''a''"] by (simp only:) simp
qed

text \<open>
  C2 (as amended). The classifier is a total function of the path and the is-directory
  flag. It returns Skip exactly for the paths that contain the text \<open>.git\<close> anywhere;
  every path with a segment \<open>.git\<close> is among them. It returns Directory for every other
  directory entry and File for every other entry. The visit function leaves the tree as
  it is on Skip, and types the node it makes \<open>dir\<close> on Directory and \<open>file\<close> on File.
\<close>

theorem C2_classify_substring:
  "(classify path isDir = Skip \<longleftrightarrow> (\<exists>p q. path = p @ ''.git'' @ q))
   \<and> (hasSegment path ''.git'' \<longrightarrow> classify path isDir = Skip)
   \<and> (classify path isDir \<noteq> Skip \<longrightarrow>
        classify path isDir = (if isDir then Directory else File))
   \<and> (classify path (fi_IsDir fi) = Skip \<longrightarrow>
        visitFunc repoID path (Some fi) err first = Inr first)
   \<and> (classify path (fi_IsDir fi) = Directory \<longrightarrow> Type (makeNode fi) = ''dir'')
   \<and> (classify path (fi_IsDir fi) = File \<longrightarrow> Type (makeNode fi) = ''file'')"
proof -
  have a: "classify path isDir = Skip \<longleftrightarrow> Contains path ''.git''"
    by (simp add: classify_def)
  have b: "hasSegment path ''.git'' \<Longrightarrow> Contains path ''.git''"
    unfolding hasSegment_def by (rule segment_Contains)
  have c: "classify path isDir \<noteq> Skip \<Longrightarrow>
      classify path isDir = (if isDir then Directory else File)"
    by (simp add: classify_def fileType_def typeDir_def typeFile_def split: if_splits)
  have d: "classify path (fi_IsDir fi) = Skip \<Longrightarrow>
      visitFunc repoID path (Some fi) err first = Inr first"
    by (simp add: classify_def visitFunc_def split: if_splits)
  have e: "classify path (fi_IsDir fi) = Directory \<Longrightarrow> Type (makeNode fi) = ''dir''"
    by (simp add: classify_def makeNode_def fileType_def typeDir_def typeFile_def
        split: if_splits)
  have f: "classify path (fi_IsDir fi) = File \<Longrightarrow> Type (makeNode fi) = ''file''"
    by (simp add: classify_def makeNode_def fileType_def typeDir_def typeFile_def
        split: if_splits)
  from a b c d e f show ?thesis by (simp only: Contains_iff) blast
qed

theorem C2_classify_substring_witness:
  "classify ''r/.git/HEAD'' False = Skip
   \<and> classify ''r/sub'' True = Directory
   \<and> classify ''r/a.txt'' False = File"
proof -
  have seg: "hasSegment ''r/.git/HEAD'' ''.git''" by (simp add: hasSegment_def)
  have n1: "classify ''r/sub'' True \<noteq> Skip"
    by (simp add: classify_def fileType_def typeDir_def typeFile_def)
  have n2: "classify ''r/a.txt'' False \<noteq> Skip"
    by (simp add: classify_def fileType_def typeDir_def typeFile_def)
  from seg n1 n2 show ?thesis
    using C2_classify_substring [of "''r/.git/HEAD''" False]
      C2_classify_substring [of "''r/sub''" True]
      C2_classify_substring [of "''r/a.txt''" False]
    by simp
qed

text \<open>
  C2 as stated fails: the file \<open>r/.gitignore\<close> has no segment \<open>.git\<close>, yet it is skipped.
\<close>

theorem C2_segment_counterexample:
  "classify ''r/.gitignore'' False = Skip \<and> \<not> hasSegment ''r/.gitignore'' ''.git''"
  by (simp add: classify_def hasSegment_def)

section \<open>Claims about the handlers\<close>

text \<open>
  C10. \<open>fileExists\<close> is false only when \<open>stat\<close> fails with a not-exist error. When
  \<open>stat\<close> fails with any other error (permission denied, say) it is true: the fetch,
  delete, build and run handlers do not answer NotFound for such an identifier, and
  creating a repository whose URL hashes to it is rejected as already existing.
\<close>

theorem C10_fileExists:
  "(\<not> fileExists fs name \<longleftrightarrow> (\<exists>e. os_Stat fs (''./'' @ name) = Inl e \<and> IsNotExist e))
   \<and> ((\<exists>e. os_Stat fs (''./'' @ name) = Inl e \<and> \<not> IsNotExist e) \<longrightarrow>
        fileExists fs name
      \<and> returned (getRepo E \<lparr>disk = fs, procs = ps\<rparr> name) \<noteq> Error errNotFound
      \<and> returned (deleteRepo E \<lparr>disk = fs, procs = ps\<rparr> name) \<noteq> Error errNotFound
      \<and> returned (buildRepo E \<lparr>disk = fs, procs = ps\<rparr> name) \<noteq> Error errNotFound
      \<and> returned (runRepo E \<lparr>disk = fs, procs = ps\<rparr> name) \<noteq> Error errNotFound
      \<and> (RepoURL repo \<noteq> [] \<and> md5String (RepoURL repo) = name \<longrightarrow>
           createRepo E \<lparr>disk = fs, procs = ps\<rparr> (Inr repo) =
             \<lparr> returned = Error (HTTPError StatusBadRequest ''repo already exists''),
               response = emptyBuffer, final = \<lparr>disk = fs, procs = ps\<rparr> \<rparr>))"
proof -
  let ?w = "\<lparr>disk = fs, procs = ps\<rparr>"
  have a: "\<not> fileExists fs name \<longleftrightarrow> (\<exists>e. os_Stat fs (''./'' @ name) = Inl e \<and> IsNotExist e)"
    by (simp add: fileExists_iff)
  have b: "fileExists fs name" if "\<exists>e. os_Stat fs (''./'' @ name) = Inl e \<and> \<not> IsNotExist e"
    using that by (auto simp: fileExists_iff)
  have c: "returned (getRepo E ?w name) \<noteq> Error errNotFound"
    "returned (deleteRepo E ?w name) \<noteq> Error errNotFound"
    "returned (buildRepo E ?w name) \<noteq> Error errNotFound"
    "returned (runRepo E ?w name) \<noteq> Error errNotFound" if "fileExists fs name"
    using that getRepo_exists [of ?w name] deleteRepo_exists [of ?w name]
      buildRepo_exists [of ?w name] runRepo_exists [of ?w name]
    by (simp_all add: errNotFound_def)
  have d: "createRepo E ?w (Inr repo) =
             \<lparr> returned = Error (HTTPError StatusBadRequest ''repo already exists''),
               response = emptyBuffer, final = ?w \<rparr>"
    if "fileExists fs name" "RepoURL repo \<noteq> []" "md5String (RepoURL repo) = name"
    using that createRepo_exists [of repo ?w E] by simp
  from a b c d show ?thesis by blast
qed

text \<open>C10 at a working directory that may not be searched: every \<open>stat\<close> is refused.\<close>

theorem C10_fileExists_witness:
  "os_Stat locked (''./'' @ md5String ''u'') = Inl EACCES \<and> \<not> IsNotExist EACCES
   \<and> fileExists locked (md5String ''u'')
   \<and> returned (getRepo quiet \<lparr>disk = locked, procs = []\<rparr> (md5String ''u'')) \<noteq> Error errNotFound
   \<and> createRepo quiet \<lparr>disk = locked, procs = []\<rparr>
          (Inr \<lparr>ID = [], RepoName = [], RepoURL = ''u'', Files = None\<rparr>) =
        \<lparr> returned = Error (HTTPError StatusBadRequest ''repo already exists''),
          response = emptyBuffer, final = \<lparr>disk = locked, procs = []\<rparr> \<rparr>"
proof -
  have st: "os_Stat locked (''./'' @ md5String ''u'') = Inl EACCES" by (rule stat_locked)
  have ne: "\<not> IsNotExist EACCES" by (simp add: IsNotExist_def)
  from st ne have ex: "\<exists>e. os_Stat locked (''./'' @ md5String ''u'') = Inl e \<and> \<not> IsNotExist e"
    by blast
  show ?thesis
    using st ne ex
      C10_fileExists [of locked "md5String ''u''" quiet "[]"
        "\<lparr>ID = [], RepoName = [], RepoURL = ''u'', Files = None\<rparr>"]
    by simp
qed

text \<open>
  C5. When the identifier computed from the URL of a create request exists on disk, the
  request is rejected with status 400 (a client error), and the world is left as it was:
  the disk is untouched and no process was started, so nothing was cloned.
\<close>

theorem C5_create_existing:
  "os_Stat (disk w) (''./'' @ md5String (RepoURL repo)) = Inr fi \<Longrightarrow>
     returned (createRepo E w (Inr repo)) =
        Error (HTTPError StatusBadRequest
          (if RepoURL repo = [] then ''url is required'' else ''repo already exists''))
   \<and> fst (ServeHTTP (createRepo E w (Inr repo))) = 400
   \<and> final (createRepo E w (Inr repo)) = w"
proof -
  assume st: "os_Stat (disk w) (''./'' @ md5String (RepoURL repo)) = Inr fi"
  show ?thesis
  proof (cases "RepoURL repo = []")
    case True
    then show ?thesis
      by (simp add: createRepo_def ServeHTTP_def StatusBadRequest_def)
  next
    case False
    from st have "fileExists (disk w) (md5String (RepoURL repo))"
      by (simp add: fileExists_def)
    with False have "createRepo E w (Inr repo) =
       \<lparr> returned = Error (HTTPError StatusBadRequest ''repo already exists''),
         response = emptyBuffer, final = w \<rparr>"
      by (rule createRepo_exists)
    with False show ?thesis by (simp add: ServeHTTP_def StatusBadRequest_def)
  qed
qed

text \<open>C5 at a store that holds the repository of URL \<open>a\<close>.\<close>

theorem C5_create_existing_witness:
  "returned (createRepo quiet \<lparr>disk = store_a, procs = []\<rparr> (Inr repo_a)) =
        Error (HTTPError StatusBadRequest ''repo already exists'')
   \<and> fst (ServeHTTP (createRepo quiet \<lparr>disk = store_a, procs = []\<rparr> (Inr repo_a))) = 400
   \<and> final (createRepo quiet \<lparr>disk = store_a, procs = []\<rparr> (Inr repo_a))
       = \<lparr>disk = store_a, procs = []\<rparr>"
proof -
  have url: "RepoURL repo_a \<noteq> []" by (simp add: repo_a_def)
  have st: "os_Stat (disk \<lparr>disk = store_a, procs = []\<rparr>) (''./'' @ md5String (RepoURL repo_a)) =
     Inr \<lparr> fi_Name = ''0cc175b9c0f1b6a831c399e269772661'', fi_Size = 4096,
           fi_IsDir = True, fi_Mode = rwx \<rparr>"
    using stat_store_a by (simp add: repo_a_def)
  show ?thesis using C5_create_existing [OF st] url by simp
qed

text \<open>
  C7 (as amended). When the target of a PUT cannot be opened, nothing on disk changes (in
  particular the file is not created); when it cannot be opened because the path does
  not exist (\<open>ENOENT\<close>), the handler returns NotFound, status 404.
\<close>

theorem C7_put_unopenable:
  "os_Open (disk w) (repoID @ ''/'' @ path) = Inl e \<Longrightarrow>
     final (setRepoFile w repoID path body) = w
   \<and> (IsNotExist e \<longrightarrow>
        returned (setRepoFile w repoID path body) = Error errNotFound
      \<and> fst (ServeHTTP (setRepoFile w repoID path body)) = 404)"
  by (simp add: setRepoFile_def ServeHTTP_def errNotFound_def StatusNotFound_def)

text \<open>C7 at the missing file \<open>r/b.txt\<close>.\<close>

theorem C7_put_unopenable_witness:
  "os_Open store_r (''r'' @ ''/'' @ ''b.txt'') = Inl ENOENT \<and> IsNotExist ENOENT
   \<and> final (setRepoFile \<lparr>disk = store_r, procs = []\<rparr> ''r'' ''b.txt'' ''new'')
       = \<lparr>disk = store_r, procs = []\<rparr>
   \<and> returned (setRepoFile \<lparr>disk = store_r, procs = []\<rparr> ''r'' ''b.txt'' ''new'')
       = Error errNotFound
   \<and> fst (ServeHTTP (setRepoFile \<lparr>disk = store_r, procs = []\<rparr> ''r'' ''b.txt'' ''new'')) = 404"
proof -
  have op: "os_Open (disk \<lparr>disk = store_r, procs = []\<rparr>) (''r'' @ ''/'' @ ''b.txt'') = Inl ENOENT"
    using open_missing by simp
  have ne: "IsNotExist ENOENT" by (simp add: IsNotExist_def)
  show ?thesis
    using C7_put_unopenable [OF op, of "''new''"] open_missing ne by blast
qed

text \<open>
  C7 as stated fails: \<open>r/a.txt/x\<close> does not exist, because \<open>r/a.txt\<close> is a regular file.
  The open fails with \<open>ENOTDIR\<close>, which is not a not-exist error, and the PUT is answered
  with status 200.
\<close>

theorem C7_not_a_directory_counterexample:
  "lookup store_r [''r'', ''a.txt'', ''x''] = None
   \<and> os_Open store_r ''r/a.txt/x'' = Inl ENOTDIR
   \<and> returned (setRepoFile \<lparr>disk = store_r, procs = []\<rparr> ''r'' ''a.txt/x'' ''new'') = Nil
   \<and> fst (ServeHTTP (setRepoFile \<lparr>disk = store_r, procs = []\<rparr> ''r'' ''a.txt/x'' ''new'')) = 200"
  by (simp add: setRepoFile_def ServeHTTP_def os_Open_def resolve_def store_r_def rwx_def
      IsNotExist_def StatusOK_def emptyBuffer_def)

text \<open>
  C8 (as amended). For every file that the server can open for reading and may write,
  a PUT of the bytes \<open>body\<close> followed by a GET of the same path returns exactly \<open>body\<close>.
\<close>

theorem C8_put_then_get:
  assumes "os_Open (disk w) (repoID @ ''/'' @ path) = Inr (FileObj p d)"
    and "may_write p"
  shows "returned (setRepoFile w repoID path body) = Nil
       \<and> returned (getRepoFile (final (setRepoFile w repoID path body)) repoID path) = Nil
       \<and> rawBody (response (getRepoFile (final (setRepoFile w repoID path body)) repoID path))
           = body"
proof -
  let ?name = "repoID @ ''/'' @ path"
  from WriteFile_existing [OF assms, of body "fi_Mode (fileInfo (basename ?name) (FileObj p d))"]
  obtain cp where res: "resolve (disk w) ?name = Inr cp"
    and lk: "lookup (disk w) cp = Some (FileObj p d)"
    and wr: "ioutil_WriteFile (disk w) ?name body
               (fi_Mode (fileInfo (basename ?name) (FileObj p d)))
             = (None, update_at (disk w) cp (FileObj p body))"
    by blast
  from assms(1) have rd: "may_read p"
    by (auto simp: os_Open_def operm_def split: sum.splits option.splits if_splits)
  have fin: "final (setRepoFile w repoID path body)
      = w\<lparr>disk := update_at (disk w) cp (FileObj p body)\<rparr>"
    and ret: "returned (setRepoFile w repoID path body) = Nil"
    using assms(1) wr by (simp_all add: setRepoFile_def Let_def)
  have "os_Open (update_at (disk w) cp (FileObj p body)) ?name = Inr (FileObj p body)"
    by (rule Open_after_update [OF res lk rd])
  with fin ret show ?thesis
    by (simp add: getRepoFile_def Let_def readAll_def rawBody_def)
qed

text \<open>C8 at the file \<open>r/a.txt\<close>.\<close>

theorem C8_put_then_get_witness:
  "os_Open store_r (''r'' @ ''/'' @ ''a.txt'') = Inr (FileObj rwx ''0123456789'')
   \<and> may_write rwx
   \<and> returned (setRepoFile \<lparr>disk = store_r, procs = []\<rparr> ''r'' ''a.txt'' ''new'') = Nil
   \<and> returned (getRepoFile
         (final (setRepoFile \<lparr>disk = store_r, procs = []\<rparr> ''r'' ''a.txt'' ''new''))
         ''r'' ''a.txt'') = Nil
   \<and> rawBody (response (getRepoFile
         (final (setRepoFile \<lparr>disk = store_r, procs = []\<rparr> ''r'' ''a.txt'' ''new''))
         ''r'' ''a.txt'')) = ''new''"
proof -
  have op: "os_Open (disk \<lparr>disk = store_r, procs = []\<rparr>) (''r'' @ ''/'' @ ''a.txt'')
      = Inr (FileObj rwx ''0123456789'')"
    using open_store_r by simp
  have wr: "may_write rwx" by (simp add: rwx_def)
  show ?thesis
    using C8_put_then_get [OF op wr, of "''new''"] open_store_r wr by blast
qed

text \<open>
  C8 as stated fails for an existing file that is read-only: the PUT reports success,
  the write is refused and its error dropped, and the GET still returns the old bytes.
\<close>

theorem C8_read_only_counterexample:
  "os_Open store_ro ''r/a.txt'' = Inr (FileObj (Perm True False False) ''old'')
   \<and> returned (setRepoFile \<lparr>disk = store_ro, procs = []\<rparr> ''r'' ''a.txt'' ''new'') = Nil
   \<and> rawBody (response (getRepoFile
         (final (setRepoFile \<lparr>disk = store_ro, procs = []\<rparr> ''r'' ''a.txt'' ''new''))
         ''r'' ''a.txt'')) = ''old''"
  by (simp add: setRepoFile_def getRepoFile_def os_Open_def resolve_def store_ro_def rwx_def
      operm_def Let_def ioutil_WriteFile_def readAll_def rawBody_def fileInfo_def)

section \<open>Claims about the tree builder\<close>




text \<open>
  C3 (as amended). Let the identifier be a directory name (not empty, not \<open>.\<close> or \<open>..\<close>,
  without a slash) and the disk be well formed. For every file entry that the walk
  reports below its root, the path of the entry is \<open>{id}/{relativePath}\<close> and the node that
  the visit function makes has the address \<open>/repositories/{id}/files/{relativePath}\<close>;
  unless the path is skipped, this is the node that the visit function hands to
  \<open>setChild\<close> or \<open>setDeepNode\<close>.
\<close>

theorem C3_file_address:
  assumes "validName repoID" and "wellFormed fs"
    and "(path, Some fi, err) \<in> set (Walk fs repoID)"
    and "path \<noteq> repoID" and "\<not> fi_IsDir fi"
  shows "\<exists>rel node. path = repoID @ ''/'' @ rel
           \<and> node = FileNode ''file'' (fi_Name fi) (fi_Size fi)
                      (''/repositories/'' @ repoID @ ''/files/'' @ rel) []
           \<and> withURL repoID path (makeNode fi) = node
           \<and> (\<not> Contains path ''.git'' \<longrightarrow>
                visitFunc repoID path (Some fi) err (Some root) =
                  (if length (Split rel CHR ''/'') \<le> 1
                   then Inr (Some (setChild root (fi_Name fi) node))
                   else (case setDeepNode root (butlast (Split rel CHR ''/'')) node of
                           None \<Rightarrow> Inl IndexOutOfRange
                         | Some root' \<Rightarrow> Inr (Some root'))))"
proof -
  have ns: "CHR ''/'' \<notin> set repoID" using assms(1) by (simp add: validName_def)
  from Walk_paths [OF assms(2,1,3)] assms(4) obtain rel where
    p: "path = repoID @ CHR ''/'' # rel" by blast
  let ?node = "FileNode ''file'' (fi_Name fi) (fi_Size fi)
                      (''/repositories/'' @ repoID @ ''/files/'' @ rel) []"
  have w: "withURL repoID path (makeNode fi) = ?node"
    using withURL_file [OF ns assms(5), of rel] p by simp
  have v: "\<not> Contains path ''.git'' \<longrightarrow>
        visitFunc repoID path (Some fi) err (Some root) =
          (if length (Split rel CHR ''/'') \<le> 1
           then Inr (Some (setChild root (fi_Name fi) ?node))
           else (case setDeepNode root (butlast (Split rel CHR ''/'')) ?node of
                   None \<Rightarrow> Inl IndexOutOfRange
                 | Some root' \<Rightarrow> Inr (Some root')))"
    using visitFunc_later [OF ns, of rel fi err root] w p by simp
  from p w v show ?thesis by auto
qed

text \<open>C3 at the file \<open>r/a.txt\<close>.\<close>

theorem C3_file_address_witness:
  "validName ''r'' \<and> wellFormed store_r
   \<and> (''r/a.txt'', Some \<lparr>fi_Name = ''a.txt'', fi_Size = 10, fi_IsDir = False, fi_Mode = rwx\<rparr>, None)
     \<in> set (Walk store_r ''r'')
   \<and> withURL ''r'' ''r/a.txt''
        (makeNode \<lparr>fi_Name = ''a.txt'', fi_Size = 10, fi_IsDir = False, fi_Mode = rwx\<rparr>) =
      FileNode ''file'' ''a.txt'' 10 ''/repositories/r/files/a.txt'' []"
proof -
  let ?fi = "\<lparr>fi_Name = ''a.txt'', fi_Size = 10, fi_IsDir = False, fi_Mode = rwx\<rparr>"
  have a: "validName ''r''" and b: "wellFormed store_r"
    by (simp_all add: validName_def store_r_def)
  have c: "''r/a.txt'' \<noteq> ''r''" and d: "\<not> fi_IsDir ?fi"
    by simp_all
  from C3_file_address [OF a b fi_a_in_walk c d] obtain rel node where
    "''r/a.txt'' = ''r'' @ ''/'' @ rel"
    "node = FileNode ''file'' (fi_Name ?fi) (fi_Size ?fi)
              (''/repositories/'' @ ''r'' @ ''/files/'' @ rel) []"
    "withURL ''r'' ''r/a.txt'' (makeNode ?fi) = node"
    by blast
  then show ?thesis using fi_a_in_walk a b by simp
qed

text \<open>
  C3 as stated fails: the address begins with a slash. And at the identifier \<open>.\<close> the
  walk reports \<open>r/a.txt\<close> without the root in front, so the address of that file is built
  from \<open>a.txt\<close>, not from its path relative to the root.
\<close>

theorem C3_leading_slash_counterexample:
  "loadRepoFiles store_r repo_r =
     Inr (repo_r\<lparr>Files := Some (FileNode ''dir'' ''r'' 4096 []
        [(''a.txt'', FileNode ''file'' ''a.txt'' 10 ''/repositories/r/files/a.txt'' [])])\<rparr>)
   \<and> ''/repositories/r/files/a.txt'' \<noteq> ''repositories/'' @ ''r'' @ ''/files/'' @ ''a.txt''
   \<and> loadRepoFiles store_r (repo_r\<lparr>ID := ''.''\<rparr>) =
     Inr (repo_r\<lparr>ID := ''.'', Files := Some (FileNode ''dir'' ''.'' 4096 []
        [(''r'', FileNode ''dir'' ''r'' 4096 [] []),
         (''a.txt'', FileNode ''file'' ''a.txt'' 10 ''/repositories/./files/a.txt'' [])])\<rparr>)
   \<and> ''/repositories/./files/a.txt'' \<noteq> ''repositories/'' @ ''.'' @ ''/files/'' @ ''r/a.txt''"
  using load_store_r load_dot by simp

text \<open>
  C4 (as amended). The build has no error result. When the root cannot be resolved, no
  tree is produced. When it can, its path is free of \<open>.git\<close> and every \<open>lstat\<close> of the walk
  succeeds, the build returns a tree whose root node is that of the root, also where
  the root or a directory below it cannot be read.
\<close>

theorem C4_no_error_result:
  "(resolve fs (ID repo) = Inl e \<longrightarrow>
      (\<forall>repo'. loadRepoFiles fs repo = Inr repo' \<longrightarrow> Files repo' = None))
   \<and> (resolve fs (ID repo) = Inr cp \<and> lookup fs cp = Some ob
        \<and> \<not> Contains (ID repo) ''.git'' \<and> lstatable ob \<longrightarrow>
      (\<exists>root. loadRepoFiles fs repo = Inr (repo\<lparr>Files := Some root\<rparr>)
         \<and> Name root = basename (ID repo)
         \<and> Type root = fileType (isDirObj ob)))"
proof (intro conjI impI)
  assume "resolve fs (ID repo) = Inl e"
  then have "Walk fs (ID repo) = [(ID repo, None, Some e)]" by (simp add: Walk_def)
  then show "\<forall>repo'. loadRepoFiles fs repo = Inr repo' \<longrightarrow> Files repo' = None"
    by (auto simp: loadRepoFiles_def visitFunc_def split: if_splits)
next
  assume a: "resolve fs (ID repo) = Inr cp \<and> lookup fs cp = Some ob
        \<and> \<not> Contains (ID repo) ''.git'' \<and> lstatable ob"
  then have W: "Walk fs (ID repo) = walk (ID repo) (basename (ID repo)) ob"
    by (simp add: Walk_def)
  from walk_head [of "ID repo" "basename (ID repo)" ob] obtain fi err rest where
    h: "walk (ID repo) (basename (ID repo)) ob = (ID repo, Some fi, err) # rest"
    and fi: "fi_Name fi = basename (ID repo)" "fi_IsDir fi = isDirObj ob" by blast
  from a have v0: "visitFunc (ID repo) (ID repo) (Some fi) err None = Inr (Some (makeNode fi))"
    by (simp add: visit_first)
  have "\<exists>root'. visitAll (ID repo) rest (Some (makeNode fi)) = Inr (Some root')
     \<and> Name root' = Name (makeNode fi) \<and> Type root' = Type (makeNode fi)"
  proof (rule visitAll_total)
    fix path f err'
    assume "(path, f, err') \<in> set rest"
    with h have "(path, f, err') \<in> set (walk (ID repo) (basename (ID repo)) ob)" by simp
    with a show "f \<noteq> None" by (auto dest: walk_lstatable)
  qed
  then obtain root where "visitAll (ID repo) rest (Some (makeNode fi)) = Inr (Some root)"
    "Name root = Name (makeNode fi)" "Type root = Type (makeNode fi)" by blast
  with W h v0 fi have "loadRepoFiles fs repo = Inr (repo\<lparr>Files := Some root\<rparr>)
         \<and> Name root = basename (ID repo) \<and> Type root = fileType (isDirObj ob)"
    by (simp add: loadRepoFiles_def makeNode_def)
  then show "\<exists>root. loadRepoFiles fs repo = Inr (repo\<lparr>Files := Some root\<rparr>)
         \<and> Name root = basename (ID repo) \<and> Type root = fileType (isDirObj ob)"
    by blast
qed

text \<open>C4 at a missing root and at the checkout \<open>r\<close>.\<close>

theorem C4_no_error_result_witness:
  "resolve store_r ''q'' = Inl ENOENT
   \<and> loadRepoFiles store_r (repo_r\<lparr>ID := ''q''\<rparr>) = Inl NilPointerDereference
   \<and> (\<exists>root. loadRepoFiles store_c1 repo_r = Inr (repo_r\<lparr>Files := Some root\<rparr>)
         \<and> Name root = ''r'' \<and> Type root = ''dir'')"
proof -
  let ?ob = "DirObj rwx 4096
        [(''sub'', DirObj rwx 4096 [(''b.txt'', FileObj rwx ''01234'')]),
         (''a.txt'', FileObj rwx ''0123456789''),
         (''.git'', DirObj rwx 4096 [(''HEAD'', FileObj rwx ''ref: refs/heads/master'')])]"
  have a: "resolve store_r ''q'' = Inl ENOENT"
    by (simp add: resolve_def store_r_def rwx_def)
  have b: "loadRepoFiles store_r (repo_r\<lparr>ID := ''q''\<rparr>) = Inl NilPointerDereference"
    by (simp add: loadRepoFiles_def Walk_def a visitFunc_def repo_r_def)
  have c: "resolve store_c1 (ID repo_r) = Inr [''r''] \<and> lookup store_c1 [''r''] = Some ?ob
        \<and> \<not> Contains (ID repo_r) ''.git'' \<and> lstatable ?ob"
    using resolve_store_c1 by (simp add: repo_r_def store_c1_def rwx_def resolve_def)
  have d: "basename (ID repo_r) = ''r''" "fileType (isDirObj ?ob) = ''dir''"
    by (simp_all add: basename_def repo_r_def fileType_def isDirObj_def typeDir_def)
  show ?thesis
    using a b c d C4_no_error_result [of store_c1 repo_r ENOENT "[''r'']" ?ob]
    by simp
qed

text \<open>
  C4 as stated fails: for a root directory that cannot be read the build returns a tree
  (the root alone) and reports nothing; for a missing root whose name contains \<open>.git\<close>
  it returns normally, with no tree and no failure.
\<close>

theorem C4_unreadable_root_counterexample:
  "os_Open store_noread ''r'' = Inl EACCES
   \<and> loadRepoFiles store_noread repo_r =
       Inr (repo_r\<lparr>Files := Some (FileNode ''dir'' ''r'' 4096 [] [])\<rparr>)
   \<and> os_Stat store_r ''x.git'' = Inl ENOENT
   \<and> loadRepoFiles store_r (repo_r\<lparr>ID := ''x.git''\<rparr>) = Inr (repo_r\<lparr>ID := ''x.git''\<rparr>)"
  by (simp add: os_Open_def os_Stat_def resolve_def store_noread_def store_r_def rwx_def
      operm_def loadRepoFiles_def Walk_def walk.simps basename_def fileInfo_def
      visitFunc_def makeNode_def fileType_def typeDir_def repo_r_def)

section \<open>Claims about the enumeration\<close>

text \<open>
  C6 (as amended). When the enumeration succeeds it returns exactly one Repository, in
  directory order, for each immediate child of the storage root that is a directory and
  whose name contains 32 consecutive lower-case hexadecimal characters, and nothing for
  any other entry. (The pattern is not anchored: a name matches when some part of it has
  the identifier format.)
\<close>

theorem C6_enumeration:
  assumes "disk w = DirObj p sz ents" and "returned (listRepos E w) = Nil"
  shows "(\<exists>repos. rb_body (response (listRepos E w)) = [JSONRepositories repos]
            \<and> map ID repos = [n. (n, ob) \<leftarrow> ents, isDirObj ob \<and> regexpMD5_MatchString n])
       \<and> (\<forall>n. regexpMD5_MatchString n \<longleftrightarrow> (\<exists>pre m post. n = pre @ m @ post \<and> isIdentifier m))"
proof -
  let ?fis = "map (\<lambda>(n, child). fileInfo n child) ents"
  from assms have op: "os_Open (disk w) ''.'' = Inr (DirObj p sz ents)"
    by (auto simp: listRepos_def open_dot split: if_splits)
  with assms have rd: "Readdir (DirObj p sz ents) = Inr ?fis"
    by (auto simp: listRepos_def Readdir_def split: if_splits)
  obtain r repos w' where ll: "listLoop E ?fis w [] = (r, repos, w')"
    by (cases "listLoop E ?fis w []") auto
  with assms(2) op rd have r: "r = Nil"
    by (cases r) (simp_all add: listRepos_def)
  with ll op rd have "rb_body (response (listRepos E w)) = [JSONRepositories repos]"
    by (simp add: listRepos_def renderJSON_def emptyBuffer_def)
  moreover from ll r have "map ID repos = [n. (n, ob) \<leftarrow> ents, isDirObj ob \<and> regexpMD5_MatchString n]"
    using listLoop_ids [of E ?fis w "[]" repos w'] by (simp add: dir_entries)
  ultimately show ?thesis using MatchString_iff by blast
qed

text \<open>C6 at a store that holds the repository of URL \<open>a\<close>.\<close>

theorem C6_enumeration_witness:
  "returned (listRepos git_ok \<lparr>disk = store_a, procs = []\<rparr>) = Nil
   \<and> (\<exists>repos. rb_body (response (listRepos git_ok \<lparr>disk = store_a, procs = []\<rparr>))
                 = [JSONRepositories repos]
          \<and> map ID repos = [''0cc175b9c0f1b6a831c399e269772661''])"
proof -
  let ?ents = "[(''0cc175b9c0f1b6a831c399e269772661'',
         DirObj rwx 4096 [(''README'', FileObj rwx ''hello'')])]"
  have d: "disk \<lparr>disk = store_a, procs = []\<rparr> = DirObj rwx 4096 ?ents"
    by (simp add: store_a_def)
  have m: "[n. (n, ob) \<leftarrow> ?ents, isDirObj ob \<and> regexpMD5_MatchString n]
      = [''0cc175b9c0f1b6a831c399e269772661'']"
    by (simp add: isDirObj_def lowerHex_def)
  show ?thesis
    using C6_enumeration [OF d list_store_a_returned] list_store_a_returned
    by (simp only: m)
qed

text \<open>
  C6 as stated fails: a directory whose name is an identifier followed by \<open>-old\<close> is
  listed, although its name does not have the identifier format.
\<close>

theorem C6_unanchored_counterexample:
  "rb_body (response (listRepos git_ok \<lparr>disk = store_old, procs = []\<rparr>)) =
     [JSONRepositories
        [\<lparr> ID = ''0cc175b9c0f1b6a831c399e269772661-old'', RepoName = ''x'',
           RepoURL = ''https://example.com/x.git'',
           Files = Some (FileNode ''dir'' ''0cc175b9c0f1b6a831c399e269772661-old'' 4096 [] []) \<rparr>]]
   \<and> \<not> isIdentifier ''0cc175b9c0f1b6a831c399e269772661-old''"
  by (simp add: list_store_old isIdentifier_def)

end
